theory Spec2Isabelle
  imports Complex_Main "HOL-Library.Multiset" "HOL-Library.AList"
begin

section \<open>The coding agent: retrieval, tools and the agent loop\<close>

text \<open>
  This theory embeds \<^verbatim>\<open>Agent\<close> of the coding agent (the class with
  \<^verbatim>\<open>retrieveContext\<close>, \<^verbatim>\<open>runStream\<close> and the three file tools) and the function
  \<^verbatim>\<open>cosineSimilarity\<close> beside it. Asynchronous calls are awaited one after the other in
  the source, so every \<^verbatim>\<open>await\<close> is an ordinary call here; the generator's
  \<^verbatim>\<open>yield\<close>s become the list of events in the order they are produced.
\<close>

subsection \<open>Error objects\<close>

text \<open>
  The exceptions raised by the runtime and by \<^verbatim>\<open>fs\<close> are \<^verbatim>\<open>Error\<close> objects, of which
  the source reads nothing but \<^verbatim>\<open>message\<close>. (What a promise may be rejected with is
  wider; see \<open>thrown\<close> below.)
\<close>

datatype exn = Exn (message: string)

subsection \<open>Numbers\<close>

text \<open>
  A JavaScript number is an IEEE-754 double: a finite value (read as the real it denotes),
  an infinity or NaN. The two zeros are not told apart: the program neither prints a number
  nor divides by a zero (see \<open>cosineSimilarity\<close>), and \<^verbatim>\<open>=== 0\<close> holds for both.
\<close>

datatype number = Num real | PInf | NInf | NaN

fun isNaN :: "number \<Rightarrow> bool" where
  "isNaN NaN = True"
| "isNaN _ = False"

text \<open>\<^verbatim>\<open>v < 0\<close> on numbers; false for NaN.\<close>

fun negative :: "number \<Rightarrow> bool" where
  "negative (Num r) = (r < 0)"
| "negative NInf = True"
| "negative _ = False"

text \<open>
  The comparator of \<^verbatim>\<open>retrieveContext\<close> subtracts two scores, and \<^verbatim>\<open>sort\<close> reads
  the sign of the result only. The sign of a difference of doubles is the sign of the exact
  difference (a difference of two different doubles does not round to zero, and the
  difference of two equal infinities is NaN), which is what \<open>num_sub\<close> computes.
\<close>

fun num_sub :: "number \<Rightarrow> number \<Rightarrow> number" where
  "num_sub NaN _ = NaN"
| "num_sub _ NaN = NaN"
| "num_sub (Num a) (Num b) = Num (a - b)"
| "num_sub PInf PInf = NaN"
| "num_sub NInf NInf = NaN"
| "num_sub PInf _ = PInf"
| "num_sub NInf _ = NInf"
| "num_sub _ PInf = NInf"
| "num_sub _ NInf = PInf"

text \<open>The order of the non-NaN doubles, used to state what sorting achieves.\<close>

fun num_le :: "number \<Rightarrow> number \<Rightarrow> bool" where
  "num_le NaN _ = False"
| "num_le _ NaN = False"
| "num_le NInf _ = True"
| "num_le _ PInf = True"
| "num_le (Num a) (Num b) = (a \<le> b)"
| "num_le PInf _ = False"
| "num_le _ NInf = False"

subsection \<open>Floating-point arithmetic\<close>

text \<open>
  The operations of \<^verbatim>\<open>cosineSimilarity\<close> (\<^verbatim>\<open>*\<close>, \<^verbatim>\<open>+\<close>, \<^verbatim>\<open>/\<close> and
  \<^verbatim>\<open>Math.sqrt\<close>) are correctly rounded: each returns the double nearest to the exact
  result, the one with the even significand when two are equally near. \<open>rnd\<close> is that
  rounding in binary64: the doubles around \<open>x\<close> are the multiples of \<open>ulp x\<close>, which is
  \<open>2\<close> to the power \<open>e - 52\<close> for the exponent \<open>e\<close> of \<open>x\<close>, not below -1022
  (the subnormal range); a rounded magnitude of \<open>2 ^ 1024\<close> or more is an infinity.
\<close>

definition roundEven :: "real \<Rightarrow> int" where
  "roundEven x =
     (let f = \<lfloor>x\<rfloor>; d = x - of_int f in
      if d < 1 / 2 then f else if 1 / 2 < d then f + 1 else if even f then f else f + 1)"

definition ulp :: "real \<Rightarrow> real" where
  "ulp x = 2 powr (of_int (max \<lfloor>log 2 \<bar>x\<bar>\<rfloor> (- 1022)) - 52)"

definition rnd :: "real \<Rightarrow> number" where
  "rnd x =
     (if x = 0 then Num 0
      else (let y = of_int (roundEven (\<bar>x\<bar> / ulp x)) * ulp x in
            if 2 ^ 1024 \<le> y then (if 0 < x then PInf else NInf) else Num (sgn x * y)))"

fun sign :: "number \<Rightarrow> int" where
  "sign (Num r) = (if r < 0 then - 1 else if 0 < r then 1 else 0)"
| "sign PInf = 1"
| "sign NInf = - 1"
| "sign NaN = 0"

definition infinity :: "int \<Rightarrow> number" where
  "infinity s = (if 0 < s then PInf else NInf)"

definition fmul :: "number \<Rightarrow> number \<Rightarrow> number" where
  "fmul x y =
     (if isNaN x \<or> isNaN y then NaN
      else (case (x, y) of
              (Num a, Num b) \<Rightarrow> rnd (a * b)
            | _ \<Rightarrow> (if sign x * sign y = 0 then NaN else infinity (sign x * sign y))))"

definition fadd :: "number \<Rightarrow> number \<Rightarrow> number" where
  "fadd x y =
     (if isNaN x \<or> isNaN y then NaN
      else (case (x, y) of
              (Num a, Num b) \<Rightarrow> rnd (a + b)
            | (Num a, _) \<Rightarrow> y
            | (_, Num b) \<Rightarrow> x
            | _ \<Rightarrow> (if x = y then x else NaN)))"

text \<open>
  Division by a zero gives an infinity whose sign depends on the sign of the zero; the
  zero is taken as \<^verbatim>\<open>+0\<close> here. \<^verbatim>\<open>cosineSimilarity\<close> never divides by a zero: its
  divisor is a product of two square roots of non-zero numbers, each at least
  \<open>2\<close> to the power -537.
\<close>

definition fdiv :: "number \<Rightarrow> number \<Rightarrow> number" where
  "fdiv x y =
     (if isNaN x \<or> isNaN y then NaN
      else (case (x, y) of
              (Num a, Num b) \<Rightarrow>
                (if b = 0 then (if a = 0 then NaN else infinity (sign x)) else rnd (a / b))
            | (Num a, _) \<Rightarrow> Num 0
            | (_, Num b) \<Rightarrow> infinity (sign x * (if b < 0 then - 1 else 1))
            | _ \<Rightarrow> NaN))"

definition fsqrt :: "number \<Rightarrow> number" where
  "fsqrt x =
     (case x of
        Num a \<Rightarrow> (if a < 0 then NaN else rnd (sqrt a))
      | PInf \<Rightarrow> PInf
      | _ \<Rightarrow> NaN)"

subsection \<open>\<^verbatim>\<open>cosineSimilarity\<close>\<close>

text \<open>
  A vector is an array of numbers. \<^verbatim>\<open>vec[i]\<close> beyond the end of the array is
  \<^verbatim>\<open>undefined\<close>, which arithmetic turns into NaN. The loop runs over the indices of
  \<^verbatim>\<open>vecA\<close>, whatever the length of \<^verbatim>\<open>vecB\<close>: \<open>accumulate\<close> is the loop from index
  \<open>i\<close> with \<open>n\<close> rounds to go, on the three sums.
\<close>

definition elem :: "number list \<Rightarrow> nat \<Rightarrow> number" where
  "elem vec i = (if i < length vec then vec ! i else NaN)"

fun accumulate :: "number list \<Rightarrow> number list \<Rightarrow> nat \<Rightarrow> nat
               \<Rightarrow> number \<times> number \<times> number \<Rightarrow> number \<times> number \<times> number" where
  "accumulate vecA vecB i 0 acc = acc"
| "accumulate vecA vecB i (Suc n) (dotProduct, normA, normB) =
     accumulate vecA vecB (i + 1) n
       (fadd dotProduct (fmul (elem vecA i) (elem vecB i)),
        fadd normA (fmul (elem vecA i) (elem vecA i)),
        fadd normB (fmul (elem vecB i) (elem vecB i)))"

definition cosineSimilarity :: "number list \<Rightarrow> number list \<Rightarrow> number" where
  "cosineSimilarity vecA vecB =
     (case accumulate vecA vecB 0 (length vecA) (Num 0, Num 0, Num 0) of
        (dotProduct, normA, normB) \<Rightarrow>
          (if normA = Num 0 \<or> normB = Num 0 then Num 0
           else fdiv dotProduct (fmul (fsqrt normA) (fsqrt normB))))"

text \<open>
  The value of \<^verbatim>\<open>normA\<close> after the loop of \<^verbatim>\<open>cosineSimilarity(vec, vec)\<close>: the sum
  of the squares of \<open>vec\<close> as the loop rounds it. It is used to state when a vector has
  similarity 1 with itself.
\<close>

definition sumOfSquares :: "number list \<Rightarrow> number" where
  "sumOfSquares vec =
     fst (snd (accumulate vec vec 0 (length vec) (Num 0, Num 0, Num 0)))"

subsection \<open>\<^verbatim>\<open>Array.prototype.sort\<close>, \<^verbatim>\<open>slice\<close> and \<^verbatim>\<open>join\<close>\<close>

text \<open>
  \<^verbatim>\<open>sort\<close> as V8 implements it (Node 11 and later; \<^verbatim>\<open>third_party/v8/builtins/array-sort.tq\<close>),
  for an array of objects. \<open>Compare\<close> calls the comparator and replaces a result NaN by
  \<^verbatim>\<open>+0\<close>. \<open>CountAndMakeRun\<close> finds the run the array starts with: descending when
  the second element compares below the first, and then extended while each element compares
  below its predecessor and reversed in place; ascending otherwise, and extended while no
  element compares below its predecessor. \<open>BinaryInsertionSort\<close> then inserts the
  remaining elements one by one, each at the place a binary search finds in the part
  already sorted.

  This is the whole algorithm for an array of fewer than 64 elements. A longer array
  is cut into several runs of 32 to 64 elements, treated as above and then merged; that
  merging is not embedded, so for 64 elements or more \<open>sort_cmp\<close> gives V8's result only
  for a comparator that is consistent (then every stable sort gives the same array).
\<close>

definition Compare :: "('a \<Rightarrow> 'a \<Rightarrow> number) \<Rightarrow> 'a \<Rightarrow> 'a \<Rightarrow> number" where
  "Compare comparefn x y = (let v = comparefn x y in if isNaN v then Num 0 else v)"

text \<open>
  The \<^verbatim>\<open>for\<close> loop of \<^verbatim>\<open>CountAndMakeRun\<close>: by how many of the elements that follow
  the run grows. (\<^verbatim>\<open>order >= 0\<close> is \<open>\<not> negative order\<close>, as \<open>order\<close> is no NaN.)
\<close>

fun extendRun :: "('a \<Rightarrow> 'a \<Rightarrow> number) \<Rightarrow> bool \<Rightarrow> 'a \<Rightarrow> 'a list \<Rightarrow> nat" where
  "extendRun comparefn isDescending previousElement [] = 0"
| "extendRun comparefn isDescending previousElement (currentElement # rest) =
     (let order = Compare comparefn currentElement previousElement in
      if (if isDescending then \<not> negative order else negative order) then 0
      else 1 + extendRun comparefn isDescending currentElement rest)"

definition CountAndMakeRun :: "('a \<Rightarrow> 'a \<Rightarrow> number) \<Rightarrow> 'a list \<Rightarrow> nat \<times> 'a list" where
  "CountAndMakeRun comparefn workArray =
     (case workArray of
        elementHigh # elementLow # rest \<Rightarrow>
          (let isDescending = negative (Compare comparefn elementLow elementHigh);
               runLength = 2 + extendRun comparefn isDescending elementLow rest
           in if isDescending
              then (runLength, rev (take runLength workArray) @ drop runLength workArray)
              else (runLength, workArray))
      | _ \<Rightarrow> (length workArray, workArray))"

text \<open>The \<^verbatim>\<open>while (left < right)\<close> loop of \<^verbatim>\<open>BinaryInsertionSort\<close>.\<close>

function insertionPoint :: "('a \<Rightarrow> 'a \<Rightarrow> number) \<Rightarrow> 'a list \<Rightarrow> 'a \<Rightarrow> nat \<Rightarrow> nat \<Rightarrow> nat" where
  "insertionPoint comparefn workArray pivot left right =
     (if left < right then
        (let mid = left + (right - left) div 2 in
         if negative (Compare comparefn pivot (workArray ! mid))
         then insertionPoint comparefn workArray pivot left mid
         else insertionPoint comparefn workArray pivot (mid + 1) right)
      else left)"
  by pat_completeness auto
termination
  by (relation "measure (\<lambda>(comparefn, workArray, pivot, left, right). right - left)") auto

declare insertionPoint.simps [simp del]

text \<open>
  \<open>BinaryInsertionSort comparefn run rest\<close>: \<open>run\<close> is the part of the array before
  \<^verbatim>\<open>start\<close>, \<open>rest\<close> the part from \<^verbatim>\<open>start\<close> on, whose first element is the pivot.
\<close>

fun BinaryInsertionSort :: "('a \<Rightarrow> 'a \<Rightarrow> number) \<Rightarrow> 'a list \<Rightarrow> 'a list \<Rightarrow> 'a list" where
  "BinaryInsertionSort comparefn run [] = run"
| "BinaryInsertionSort comparefn run (pivot # rest) =
     (let left = insertionPoint comparefn run pivot 0 (length run) in
      BinaryInsertionSort comparefn (take left run @ pivot # drop left run) rest)"

definition sort_cmp :: "('a \<Rightarrow> 'a \<Rightarrow> number) \<Rightarrow> 'a list \<Rightarrow> 'a list" where
  "sort_cmp comparefn xs =
     (if length xs < 2 then xs
      else (case CountAndMakeRun comparefn xs of
              (runLength, workArray) \<Rightarrow>
                BinaryInsertionSort comparefn (take runLength workArray) (drop runLength workArray)))"

text \<open>\<open>before comparefn x y\<close>: the comparator puts \<open>x\<close> before \<open>y\<close>.\<close>

definition before :: "('a \<Rightarrow> 'a \<Rightarrow> number) \<Rightarrow> 'a \<Rightarrow> 'a \<Rightarrow> bool" where
  "before comparefn x y = negative (Compare comparefn x y)"

text \<open>
  \<^verbatim>\<open>xs.slice(0, k)\<close> for an integer \<open>k\<close>: a negative \<open>k\<close> counts from the end.
\<close>

definition slice0 :: "'a list \<Rightarrow> int \<Rightarrow> 'a list" where
  "slice0 xs k = (if k < 0 then take (nat (int (length xs) + k)) xs else take (nat k) xs)"

fun join :: "string \<Rightarrow> string list \<Rightarrow> string" where
  "join sep [] = []"
| "join sep [x] = x"
| "join sep (x # y # ys) = x @ sep @ join sep (y # ys)"

subsection \<open>JavaScript values\<close>

text \<open>
  \<^verbatim>\<open>toolCall.args\<close> is typed \<^verbatim>\<open>any\<close>; the model decides its shape. The values
  here are the ones JSON can carry, and \<^verbatim>\<open>undefined\<close>. The tools do nothing with a
  number but print it, so a number is given by its text: the one \<^verbatim>\<open>util.inspect\<close>
  shows, which is the one string conversion gives except for \<^verbatim>\<open>-0\<close>. A character of
  a string stands for a UTF-16 code unit.
\<close>

datatype jsval =
    JUndefined
  | JNull
  | JBool bool
  | JNum string
  | JStr string
  | JArr "jsval list"
  | JObj "(string \<times> jsval) list"

text \<open>
  String conversion, as a template literal \<^verbatim>\<open>${v}\<close> performs it. It throws for an
  object with an own property \<^verbatim>\<open>toString\<close> (which, coming from JSON, is no function),
  also inside an array; \<open>template\<close> is the conversion with that case.
\<close>

fun toStr :: "jsval \<Rightarrow> string" where
  "toStr JUndefined = ''undefined''"
| "toStr JNull = ''null''"
| "toStr (JBool b) = (if b then ''true'' else ''false'')"
| "toStr (JNum s) = (if s = ''-0'' then ''0'' else s)"
| "toStr (JStr s) = s"
| "toStr (JArr vs) =
     join '','' (map (\<lambda>v. case v of JUndefined \<Rightarrow> [] | JNull \<Rightarrow> [] | _ \<Rightarrow> toStr v) vs)"
| "toStr (JObj kvs) = ''[object Object]''"

fun convertible :: "jsval \<Rightarrow> bool" where
  "convertible (JObj kvs) = (map_of kvs ''toString'' = None)"
| "convertible (JArr vs) = list_all convertible vs"
| "convertible _ = True"

definition template :: "jsval \<Rightarrow> exn + string" where
  "template v =
     (if convertible v then Inr (toStr v)
      else Inl (Exn ''Cannot convert object to primitive value''))"

text \<open>
  Reading a property that is not a built-in one (the tools read \<^verbatim>\<open>path\<close> and
  \<^verbatim>\<open>content\<close>): an object's own value or \<^verbatim>\<open>undefined\<close>; a primitive or an array
  has none. Reading from \<^verbatim>\<open>undefined\<close> or \<^verbatim>\<open>null\<close> throws, which is what the
  parameter destructuring of a tool handler does before its \<^verbatim>\<open>try\<close> is entered.
\<close>

definition getProp :: "jsval \<Rightarrow> string \<Rightarrow> jsval" where
  "getProp v k =
     (case v of
        JObj kvs \<Rightarrow> (case map_of kvs k of Some x \<Rightarrow> x | None \<Rightarrow> JUndefined)
      | _ \<Rightarrow> JUndefined)"

definition nullish :: "jsval \<Rightarrow> bool" where
  "nullish v = (case v of JUndefined \<Rightarrow> True | JNull \<Rightarrow> True | _ \<Rightarrow> False)"

definition quoted :: "string \<Rightarrow> string" where
  "quoted s = [CHR 0x27] @ s @ [CHR 0x27]"

definition dquoted :: "string \<Rightarrow> string" where
  "dquoted s = [CHR 0x22] @ s @ [CHR 0x22]"

text \<open>
  The message of the destructuring of a value that is \<^verbatim>\<open>undefined\<close> or \<^verbatim>\<open>null\<close>;
  V8 names the value \<^verbatim>\<open>'undefined'\<close> or \<^verbatim>\<open>'object null'\<close>.
\<close>

definition destructureError :: "string \<Rightarrow> jsval \<Rightarrow> exn" where
  "destructureError k v =
     Exn (''Cannot destructure property '' @ quoted k @ '' of ''
          @ quoted (case v of JNull \<Rightarrow> ''object null'' | _ \<Rightarrow> toStr v)
          @ '' as it is '' @ toStr v @ ''.'')"

text \<open>
  What a \<^verbatim>\<open>catch (e)\<close> can receive. A promise may be rejected with any value, and the
  \<^verbatim>\<open>catch\<close> of the agent loop reads \<^verbatim>\<open>e.message\<close>: of a value that is neither
  \<^verbatim>\<open>undefined\<close> nor \<^verbatim>\<open>null\<close> that is some value (\<^verbatim>\<open>undefined\<close> when there is no
  such property, as for a string that was thrown); of \<^verbatim>\<open>undefined\<close> and \<^verbatim>\<open>null\<close>
  the reading itself throws a \<^verbatim>\<open>TypeError\<close>. \<open>Thrown m\<close> is a value whose
  \<^verbatim>\<open>message\<close> is \<open>m\<close>.
\<close>

datatype thrown = Thrown jsval | ThrownUndefined | ThrownNull

definition errorObject :: "exn \<Rightarrow> thrown" where
  "errorObject e = Thrown (JStr (message e))"

definition readMessageError :: "string \<Rightarrow> exn" where
  "readMessageError v =
     Exn (''Cannot read properties of '' @ v @ '' (reading '' @ quoted ''message'' @ '')'')"

subsection \<open>The index and \<^verbatim>\<open>retrieveContext\<close>\<close>

record 'v DocumentChunk =
  path :: string
  content :: string
  embedding :: "'v option"

text \<open>
  The parts of the agent that retrieval reads: the index and the embedder
  (\<^verbatim>\<open>Embeddings | null\<close>), whose \<^verbatim>\<open>embedQuery\<close> returns a vector or throws.

  Retrieval is stated over any type \<open>'v\<close> of vectors and any function \<open>similarity\<close>
  on them; in the source the vectors are arrays of numbers and the function is
  \<open>cosineSimilarity\<close>.
\<close>

record 'v Retriever =
  index :: "'v DocumentChunk list"
  embeddings :: "(string \<Rightarrow> thrown + 'v) option"

type_synonym 'v scored = "'v DocumentChunk \<times> number"

definition score_of :: "('v \<Rightarrow> 'v \<Rightarrow> number) \<Rightarrow> 'v \<Rightarrow> 'v DocumentChunk \<Rightarrow> number" where
  "score_of similarity queryEmbedding chunk =
     (case embedding chunk of
        Some v \<Rightarrow> similarity queryEmbedding v
      | None \<Rightarrow> Num (- 1))"

definition byScoreDesc :: "'v scored \<Rightarrow> 'v scored \<Rightarrow> number" where
  "byScoreDesc a b = num_sub (snd b) (snd a)"

text \<open>Descending order of scores, the order \<open>byScoreDesc\<close> asks \<^verbatim>\<open>sort\<close> for.\<close>

definition desc :: "'v scored \<Rightarrow> 'v scored \<Rightarrow> bool" where
  "desc a b = num_le (snd b) (snd a)"

definition scoredSorted ::
  "('v \<Rightarrow> 'v \<Rightarrow> number) \<Rightarrow> 'v \<Rightarrow> 'v DocumentChunk list \<Rightarrow> 'v scored list" where
  "scoredSorted similarity queryEmbedding idx =
     sort_cmp byScoreDesc
       (map (\<lambda>chunk. (chunk, score_of similarity queryEmbedding chunk)) idx)"

definition formatChunk :: "'v scored \<Rightarrow> string" where
  "formatChunk s =
     ''File: '' @ path (fst s) @ ''\<newline>Content:\<newline>'' @ content (fst s) @ ''\<newline>''"

definition delimiter :: string where
  "delimiter = ''\<newline>---\<newline>''"

definition retrieveContext ::
  "('v \<Rightarrow> 'v \<Rightarrow> number) \<Rightarrow> 'v Retriever \<Rightarrow> string \<Rightarrow> int \<Rightarrow> string" where
  "retrieveContext similarity agent query k =
     (case index agent of
        [] \<Rightarrow> []
      | first # _ \<Rightarrow>
          (case embeddings agent of
             None \<Rightarrow> []
           | Some embedQuery \<Rightarrow>
               (case embedding first of
                  None \<Rightarrow> []
                | Some _ \<Rightarrow>
                    (case embedQuery query of
                       Inl e \<Rightarrow> []
                     | Inr queryEmbedding \<Rightarrow>
                         join delimiter
                           (map formatChunk
                              (slice0 (scoredSorted similarity queryEmbedding (index agent))
                                 k))))))"

subsection \<open>Zod schemas\<close>

text \<open>
  A schema is the set of values its \<^verbatim>\<open>parse\<close> accepts: \<^verbatim>\<open>z.string()\<close> accepts
  the strings, \<^verbatim>\<open>z.object(shape)\<close> the objects each of whose shape keys holds an
  accepted value (unknown keys are allowed).
\<close>

type_synonym zod = "jsval \<Rightarrow> bool"

definition zString :: zod where
  "zString v = (case v of JStr _ \<Rightarrow> True | _ \<Rightarrow> False)"

definition zObject :: "(string \<times> zod) list \<Rightarrow> zod" where
  "zObject shape v =
     (case v of
        JObj kvs \<Rightarrow> list_all (\<lambda>(k, s). s (getProp (JObj kvs) k)) shape
      | _ \<Rightarrow> False)"

subsection \<open>The file system behind \<^verbatim>\<open>fs\<close> and \<^verbatim>\<open>path\<close>\<close>

text \<open>
  A POSIX file system as far as the tools reach it: absolute, normalised paths (lists of
  names, the root is \<open>[]\<close>) mapped to regular files (their bytes), directories, and
  character devices that take what is written and read as empty (such as
  \<^verbatim>\<open>/dev/null\<close>); and a working directory. There are no symbolic links.
\<close>

datatype node = File string | Dir | CharDevice

text \<open>
  Whatever else the operating system may answer to a system call (a name or a path that is
  too long, a missing permission, a read-only or full file system, an I/O error) is the
  field \<open>refuse\<close>: for each step of a call, the error with which the system refuses
  it, if it does (for example \<^verbatim>\<open>ENAMETOOLONG: name too long\<close> for the lookup of
  a name of more than 255 bytes). The steps: taking the path string as a whole; looking up
  a name in a directory; creating an entry; opening a file for reading; reading it;
  opening a file for writing; writing bytes to it; listing a directory.
\<close>

datatype request =
    Path string
  | Lookup "string list" string
  | Create "string list"
  | OpenRead "string list"
  | Read "string list"
  | OpenWrite "string list"
  | Write "string list" string
  | List "string list"

text \<open>
  \<open>encode\<close> and \<open>decode\<close> are the conversions between a string and the bytes of a
  file (UTF-8): \<^verbatim>\<open>writeFileSync\<close> stores the encoding of the string, and
  \<^verbatim>\<open>readFileSync(path, 'utf-8')\<close> returns the decoding of the bytes. Decoding the
  encoding of a string gives the string back when the string is well formed; a lone
  surrogate is encoded as U+FFFD and comes back as that. The code units of a string are not
  enumerated here, so the two conversions are left open, and what is needed of them is
  assumed where it is needed. \<open>listed\<close> is the order in which the file system hands out
  the names of a directory.
\<close>

record FileSystem =
  entries :: "(string list \<times> node) list"
  cwd :: "string list"
  refuse :: "request \<Rightarrow> string option"
  encode :: "string \<Rightarrow> string"
  decode :: "string \<Rightarrow> string"
  listed :: "string list \<Rightarrow> string list"

fun splitOn :: "char \<Rightarrow> string \<Rightarrow> string list" where
  "splitOn d [] = [[]]"
| "splitOn d (c # cs) =
     (if c = d then [] # splitOn d cs
      else (case splitOn d cs of w # ws \<Rightarrow> (c # w) # ws | [] \<Rightarrow> [[c]]))"

definition enter :: "string list \<Rightarrow> string \<Rightarrow> string list" where
  "enter cur c =
     (if c = [] \<or> c = ''.'' then cur else if c = ''..'' then butlast cur else cur @ [c])"

definition sysError :: "string \<Rightarrow> string \<Rightarrow> string \<Rightarrow> exn" where
  "sysError code syscall p = Exn (code @ '', '' @ syscall @ '' '' @ quoted p)"

definition ENOENT :: string where "ENOENT = ''ENOENT: no such file or directory''"
definition ENOTDIR :: string where "ENOTDIR = ''ENOTDIR: not a directory''"
definition EISDIR :: string where "EISDIR = ''EISDIR: illegal operation on a directory''"
definition EEXIST :: string where "EEXIST = ''EEXIST: file already exists''"

text \<open>
  Path resolution: every name is looked up in a directory that exists; the place the
  last name leads to may be missing. A failure is the error code.
\<close>

fun walk ::
  "(request \<Rightarrow> string option) \<Rightarrow> (string list \<times> node) list \<Rightarrow> string list \<Rightarrow> string list
     \<Rightarrow> string + string list" where
  "walk rf es cur [] = Inr cur"
| "walk rf es cur (c # cs) =
     (case map_of es cur of
        None \<Rightarrow> Inl ENOENT
      | Some Dir \<Rightarrow>
          (case rf (Lookup cur c) of
             Some code \<Rightarrow> Inl code
           | None \<Rightarrow> walk rf es (enter cur c) cs)
      | Some _ \<Rightarrow> Inl ENOTDIR)"

text \<open>A path with a null byte is refused before any system call; the empty path names nothing.\<close>

definition nullBytes :: "string \<Rightarrow> bool" where
  "nullBytes p = (CHR 0x00 \<in> set p)"

text \<open>
  The message shows the path as \<^verbatim>\<open>util.inspect\<close> does: control characters, the
  backslash and the quote in use are escaped; the quotes are single ones unless the string
  holds one (then double ones, or backticks if it holds both and no backtick or
  \<^verbatim>\<open>${\<close>); what is longer than 128 characters is cut. (That is \<^verbatim>\<open>inspect\<close> for a
  string of up to 76 characters; a longer string with line breaks is laid out in pieces.)
\<close>

definition hex :: "nat \<Rightarrow> char" where
  "hex n = ''0123456789ABCDEF'' ! n"

definition escapeChar :: "char \<Rightarrow> char \<Rightarrow> string" where
  "escapeChar quote c =
     (let n = (of_char c :: nat) in
      if n = 8 then [CHR 0x5C, CHR ''b'']
      else if n = 9 then [CHR 0x5C, CHR ''t'']
      else if n = 10 then [CHR 0x5C, CHR ''n'']
      else if n = 12 then [CHR 0x5C, CHR ''f'']
      else if n = 13 then [CHR 0x5C, CHR ''r'']
      else if n = 92 then [CHR 0x5C, CHR 0x5C]
      else if c = quote \<and> n = 39 then [CHR 0x5C, CHR 0x27]
      else if n < 32 \<or> (126 < n \<and> n < 160) then [CHR 0x5C, CHR ''x'', hex (n div 16), hex (n mod 16)]
      else [c])"

fun contains :: "string \<Rightarrow> string \<Rightarrow> bool" where
  "contains w [] = (w = [])"
| "contains w (c # cs) = (take (length w) (c # cs) = w \<or> contains w cs)"

definition quoteFor :: "string \<Rightarrow> char" where
  "quoteFor s =
     (if CHR 0x27 \<notin> set s then CHR 0x27
      else if CHR 0x22 \<notin> set s then CHR 0x22
      else if CHR 0x60 \<notin> set s \<and> \<not> contains ''${'' s then CHR 0x60
      else CHR 0x27)"

definition inspectString :: "string \<Rightarrow> string" where
  "inspectString s = [quoteFor s] @ concat (map (escapeChar (quoteFor s)) s) @ [quoteFor s]"

definition nullBytesError :: "string \<Rightarrow> exn" where
  "nullBytesError p =
     Exn (''The argument '' @ quoted ''path''
          @ '' must be a string, Uint8Array, or URL without null bytes. Received ''
          @ (if length (inspectString p) > 128 then take 128 (inspectString p) @ ''...''
             else inspectString p))"

definition start :: "FileSystem \<Rightarrow> string \<Rightarrow> string list" where
  "start fs p = (if take 1 p = ''/'' then [] else cwd fs)"

definition resolve :: "FileSystem \<Rightarrow> string \<Rightarrow> string + string list" where
  "resolve fs p =
     (if p = [] then Inl ENOENT
      else (case refuse fs (Path p) of
              Some code \<Rightarrow> Inl code
            | None \<Rightarrow> walk (refuse fs) (entries fs) (start fs p) (splitOn CHR ''/'' p)))"

text \<open>
  The messages of the argument checks (\<^verbatim>\<open>ERR_INVALID_ARG_TYPE\<close>). The checks raise
  them for values that are no strings, so the case of a string is not reached.
\<close>

definition received :: "jsval \<Rightarrow> string" where
  "received v =
     (case v of
        JUndefined \<Rightarrow> ''undefined''
      | JNull \<Rightarrow> ''null''
      | JBool b \<Rightarrow> ''type boolean ('' @ toStr v @ '')''
      | JNum s \<Rightarrow> ''type number ('' @ s @ '')''
      | JStr s \<Rightarrow> ''type string ('' @ inspectString s @ '')''
      | JArr vs \<Rightarrow> ''an instance of Array''
      | JObj kvs \<Rightarrow> ''an instance of Object'')"

definition pathTypeError :: "jsval \<Rightarrow> exn" where
  "pathTypeError v =
     Exn (''The '' @ dquoted ''path'' @ '' argument must be of type string. Received '' @ received v)"

definition dataTypeError :: "jsval \<Rightarrow> exn" where
  "dataTypeError v =
     Exn (''The '' @ dquoted ''data''
          @ '' argument must be of type string or an instance of Buffer, TypedArray, or DataView. Received ''
          @ received v)"

text \<open>\<^verbatim>\<open>existsSync\<close> never throws: on any failure, and on a path that is no string, it is false.\<close>

definition existsSync :: "FileSystem \<Rightarrow> jsval \<Rightarrow> bool" where
  "existsSync fs v =
     (case v of
        JStr p \<Rightarrow>
          (if nullBytes p then False
           else (case resolve fs p of Inr q \<Rightarrow> map_of (entries fs) q \<noteq> None | Inl _ \<Rightarrow> False))
      | _ \<Rightarrow> False)"

text \<open>
  \<^verbatim>\<open>readFileSync(path, 'utf-8')\<close>: the file is opened, read and decoded. A directory can
  be opened; reading it fails.
\<close>

definition readFileSync :: "FileSystem \<Rightarrow> jsval \<Rightarrow> exn + string" where
  "readFileSync fs v =
     (case v of
        JStr p \<Rightarrow>
          (if nullBytes p then Inl (nullBytesError p)
           else
             (case resolve fs p of
                Inl code \<Rightarrow> Inl (sysError code ''open'' p)
              | Inr q \<Rightarrow>
                  (case map_of (entries fs) q of
                     None \<Rightarrow> Inl (sysError ENOENT ''open'' p)
                   | Some n \<Rightarrow>
                       (case refuse fs (OpenRead q) of
                          Some code \<Rightarrow> Inl (sysError code ''open'' p)
                        | None \<Rightarrow>
                            (case n of
                               Dir \<Rightarrow> Inl (Exn (EISDIR @ '', read''))
                             | _ \<Rightarrow>
                                 (case refuse fs (Read q) of
                                    Some code \<Rightarrow> Inl (Exn (code @ '', read''))
                                  | None \<Rightarrow>
                                      Inr (decode fs (case n of File bytes \<Rightarrow> bytes | _ \<Rightarrow> []))))))))
      | _ \<Rightarrow> Inl (pathTypeError v))"

text \<open>
  Opening a path for writing (\<^verbatim>\<open>O_WRONLY | O_CREAT | O_TRUNC\<close>): a missing file is
  created, an existing one emptied; a directory is refused, and so is a path that ends in a
  slash (as naming a directory, unless what it names is a file). The result is the place
  opened and the file system after the opening.
\<close>

definition stripEmpty :: "string list \<Rightarrow> string list" where
  "stripEmpty cs = rev (dropWhile (\<lambda>c. c = []) (rev cs))"

definition openForWriting :: "FileSystem \<Rightarrow> string \<Rightarrow> string + string list \<times> FileSystem" where
  "openForWriting fs p =
     (if p \<noteq> [] \<and> last p = CHR ''/'' then
        (case refuse fs (Path p) of
           Some code \<Rightarrow> Inl code
         | None \<Rightarrow>
             (case walk (refuse fs) (entries fs) (start fs p) (stripEmpty (splitOn CHR ''/'' p)) of
                Inl code \<Rightarrow> Inl code
              | Inr q \<Rightarrow>
                  (case map_of (entries fs) q of
                     Some (File _) \<Rightarrow> Inl ENOTDIR
                   | Some CharDevice \<Rightarrow> Inl ENOTDIR
                   | _ \<Rightarrow> Inl EISDIR)))
      else
        (case resolve fs p of
           Inl code \<Rightarrow> Inl code
         | Inr q \<Rightarrow>
             (case map_of (entries fs) q of
                Some Dir \<Rightarrow> Inl EISDIR
              | Some CharDevice \<Rightarrow>
                  (case refuse fs (OpenWrite q) of
                     Some code \<Rightarrow> Inl code
                   | None \<Rightarrow> Inr (q, fs))
              | Some (File _) \<Rightarrow>
                  (case refuse fs (OpenWrite q) of
                     Some code \<Rightarrow> Inl code
                   | None \<Rightarrow> Inr (q, fs\<lparr>entries := AList.update q (File []) (entries fs)\<rparr>))
              | None \<Rightarrow>
                  (case refuse fs (Create q) of
                     Some code \<Rightarrow> Inl code
                   | None \<Rightarrow> Inr (q, fs\<lparr>entries := AList.update q (File []) (entries fs)\<rparr>)))))"

text \<open>
  \<^verbatim>\<open>writeFileSync\<close> checks the data before it opens the path. It returns the exception
  thrown, if any, and the file system it leaves: a write that fails after the opening leaves
  the file empty.
\<close>

definition writeFileSync :: "FileSystem \<Rightarrow> jsval \<Rightarrow> jsval \<Rightarrow> exn option \<times> FileSystem" where
  "writeFileSync fs v data =
     (case data of
        JStr c \<Rightarrow>
          (case v of
             JStr p \<Rightarrow>
               (if nullBytes p then (Some (nullBytesError p), fs)
                else
                  (case openForWriting fs p of
                     Inl code \<Rightarrow> (Some (sysError code ''open'' p), fs)
                   | Inr (q, fs1) \<Rightarrow>
                       (case refuse fs (Write q (encode fs c)) of
                          Some code \<Rightarrow> (Some (Exn (code @ '', write'')), fs1)
                        | None \<Rightarrow>
                            (case map_of (entries fs1) q of
                               Some CharDevice \<Rightarrow> (None, fs1)
                             | _ \<Rightarrow>
                                 (None, fs1\<lparr>entries := AList.update q (File (encode fs c)) (entries fs1)\<rparr>)))))
           | _ \<Rightarrow> (Some (pathTypeError v), fs))
      | _ \<Rightarrow> (Some (dataTypeError data), fs))"

text \<open>
  \<^verbatim>\<open>mkdirSync(dir, { recursive: true })\<close>: the directories missing along the path
  are created one after the other; the ones created stay when a later name fails. The
  message of a failure names the path given.
\<close>

fun mkdirp ::
  "(request \<Rightarrow> string option) \<Rightarrow> (string list \<times> node) list \<Rightarrow> string list \<Rightarrow> string list
     \<Rightarrow> string option \<times> (string list \<times> node) list" where
  "mkdirp rf es cur [] =
     (case map_of es cur of
        Some Dir \<Rightarrow> (None, es)
      | Some _ \<Rightarrow> (Some EEXIST, es)
      | None \<Rightarrow> (Some ENOENT, es))"
| "mkdirp rf es cur (c # cs) =
     (case map_of es cur of
        None \<Rightarrow> (Some ENOENT, es)
      | Some Dir \<Rightarrow>
          (case rf (Lookup cur c) of
             Some code \<Rightarrow> (Some code, es)
           | None \<Rightarrow>
               (case map_of es (enter cur c) of
                  None \<Rightarrow>
                    (case rf (Create (enter cur c)) of
                       Some code \<Rightarrow> (Some code, es)
                     | None \<Rightarrow> mkdirp rf (AList.update (enter cur c) Dir es) (enter cur c) cs)
                | Some _ \<Rightarrow> mkdirp rf es (enter cur c) cs))
      | Some _ \<Rightarrow> (Some ENOTDIR, es))"

definition mkdirSync :: "FileSystem \<Rightarrow> string \<Rightarrow> exn option \<times> FileSystem" where
  "mkdirSync fs p =
     (if nullBytes p then (Some (nullBytesError p), fs)
      else if p = [] then (Some (sysError ENOENT ''mkdir'' p), fs)
      else
        (case refuse fs (Path p) of
           Some code \<Rightarrow> (Some (sysError code ''mkdir'' p), fs)
         | None \<Rightarrow>
             (case mkdirp (refuse fs) (entries fs) (start fs p) (splitOn CHR ''/'' p) of
                (None, es) \<Rightarrow> (None, fs\<lparr>entries := es\<rparr>)
              | (Some code, es) \<Rightarrow> (Some (sysError code ''mkdir'' p), fs\<lparr>entries := es\<rparr>))))"

definition children :: "(string list \<times> node) list \<Rightarrow> string list \<Rightarrow> string list" where
  "children es q = map (last \<circ> fst) (filter (\<lambda>(r, _). r \<noteq> [] \<and> butlast r = q) es)"

definition readdirSync :: "FileSystem \<Rightarrow> jsval \<Rightarrow> exn + string list" where
  "readdirSync fs v =
     (case v of
        JStr p \<Rightarrow>
          (if nullBytes p then Inl (nullBytesError p)
           else
             (case resolve fs p of
                Inl code \<Rightarrow> Inl (sysError code ''scandir'' p)
              | Inr q \<Rightarrow>
                  (case map_of (entries fs) q of
                     None \<Rightarrow> Inl (sysError ENOENT ''scandir'' p)
                   | Some Dir \<Rightarrow>
                       (case refuse fs (List q) of
                          Some code \<Rightarrow> Inl (sysError code ''scandir'' p)
                        | None \<Rightarrow> Inr (listed fs (children (entries fs) q)))
                   | Some _ \<Rightarrow> Inl (sysError ENOTDIR ''scandir'' p))))
      | _ \<Rightarrow> Inl (pathTypeError v))"

text \<open>
  \<^verbatim>\<open>path.dirname\<close> (POSIX): the scan from the last character down to index 1 for the
  first slash that follows a non-slash.
\<close>

fun dirnameScan :: "string \<Rightarrow> nat \<Rightarrow> bool \<Rightarrow> nat option" where
  "dirnameScan p 0 matchedSlash = None"
| "dirnameScan p (Suc i) matchedSlash =
     (if p ! Suc i = CHR ''/'' then
        (if \<not> matchedSlash then Some (Suc i) else dirnameScan p i matchedSlash)
      else dirnameScan p i False)"

definition dirname :: "jsval \<Rightarrow> exn + string" where
  "dirname v =
     (case v of
        JStr p \<Rightarrow>
          Inr (if p = [] then ''.''
               else (case dirnameScan p (length p - 1) True of
                       None \<Rightarrow> (if take 1 p = ''/'' then ''/'' else ''.'')
                     | Some e \<Rightarrow> (if take 1 p = ''/'' \<and> e = 1 then ''//'' else take e p)))
      | _ \<Rightarrow> Inl (pathTypeError v))"

text \<open>
  A plain name: a path component that is not empty, \<^verbatim>\<open>.\<close> or \<^verbatim>\<open>..\<close>, and holds
  neither a slash nor a null byte. Used to state for which paths a write succeeds.
\<close>

definition plainName :: "string \<Rightarrow> bool" where
  "plainName n = (n \<noteq> [] \<and> CHR ''/'' \<notin> set n \<and> CHR 0x00 \<notin> set n \<and> n \<noteq> ''.'' \<and> n \<noteq> ''..'')"

subsection \<open>The tool registry\<close>

record ToolDef =
  name :: string
  description :: string
  schema :: zod
  func :: "FileSystem \<Rightarrow> jsval \<Rightarrow> exn + string \<times> FileSystem"

text \<open>
  A handler takes the file system and the arguments, and returns the string and the file
  system it leaves, or throws. Each handler destructures its argument in the parameter
  list (outside its \<^verbatim>\<open>try\<close>) and does everything else inside the \<^verbatim>\<open>try\<close>, whose
  \<^verbatim>\<open>catch\<close> receives the \<^verbatim>\<open>Error\<close> objects of the runtime and of \<^verbatim>\<open>fs\<close>.
\<close>

definition read_file_func :: "FileSystem \<Rightarrow> jsval \<Rightarrow> exn + string \<times> FileSystem" where
  "read_file_func fs args =
     (if nullish args then Inl (destructureError ''path'' args)
      else
        (let p = getProp args ''path'' in
         if \<not> existsSync fs p then
           (case template p of
              Inr s \<Rightarrow> Inr (''File not found: '' @ s, fs)
            | Inl e \<Rightarrow> Inr (''Error reading file: '' @ message e, fs))
         else (case readFileSync fs p of
                 Inr c \<Rightarrow> Inr (c, fs)
               | Inl e \<Rightarrow> Inr (''Error reading file: '' @ message e, fs))))"

definition write_file_func :: "FileSystem \<Rightarrow> jsval \<Rightarrow> exn + string \<times> FileSystem" where
  "write_file_func fs args =
     (if nullish args then Inl (destructureError ''path'' args)
      else
        (let filePath = getProp args ''path''; data = getProp args ''content'' in
         case dirname filePath of
           Inl e \<Rightarrow> Inr (''Error writing file: '' @ message e, fs)
         | Inr dir \<Rightarrow>
             (case (if \<not> existsSync fs (JStr dir) then mkdirSync fs dir else (None, fs)) of
                (Some e, fs1) \<Rightarrow> Inr (''Error writing file: '' @ message e, fs1)
              | (None, fs1) \<Rightarrow>
                  (case writeFileSync fs1 filePath data of
                     (Some e, fs2) \<Rightarrow> Inr (''Error writing file: '' @ message e, fs2)
                   | (None, fs2) \<Rightarrow> Inr (''Successfully wrote to '' @ toStr filePath, fs2)))))"

definition list_files_func :: "FileSystem \<Rightarrow> jsval \<Rightarrow> exn + string \<times> FileSystem" where
  "list_files_func fs args =
     (if nullish args then Inl (destructureError ''path'' args)
      else
        (let dirPath = getProp args ''path'' in
         if \<not> existsSync fs dirPath then
           (case template dirPath of
              Inr s \<Rightarrow> Inr (''Directory not found: '' @ s, fs)
            | Inl e \<Rightarrow> Inr (''Error listing files: '' @ message e, fs))
         else (case readdirSync fs dirPath of
                 Inr files \<Rightarrow> Inr (join ''\<newline>'' files, fs)
               | Inl e \<Rightarrow> Inr (''Error listing files: '' @ message e, fs))))"

definition read_file :: ToolDef where
  "read_file =
     \<lparr>name = ''read_file'',
      description = ''Read the content of a file'',
      schema = zObject [(''path'', zString)],
      func = read_file_func\<rparr>"

definition write_file :: ToolDef where
  "write_file =
     \<lparr>name = ''write_file'',
      description = ''Write content to a file. Overwrites existing file.'',
      schema = zObject [(''path'', zString), (''content'', zString)],
      func = write_file_func\<rparr>"

definition list_files :: ToolDef where
  "list_files =
     \<lparr>name = ''list_files'',
      description = ''List files in a directory'',
      schema = zObject [(''path'', zString)],
      func = list_files_func\<rparr>"

definition tools :: "ToolDef list" where
  "tools = [read_file, write_file, list_files]"

subsection \<open>Messages, tool calls and progress events\<close>

datatype ToolCall = ToolCall (tc_name: string) (tc_args: jsval) (tc_id: "string option")

text \<open>What the model returns: its text and \<^verbatim>\<open>tool_calls\<close> (possibly undefined).\<close>

datatype response = Response (resp_content: string) (tool_calls: "ToolCall list option")

datatype msg =
    SystemMessage string
  | HumanMessage string
  | AIMessage response
  | ToolMessage (tool_call_id: string) (tool_content: string)

text \<open>
  The events are the objects handed to \<^verbatim>\<open>JSON.stringify\<close>, named by their
  \<^verbatim>\<open>type\<close> field.
\<close>

text \<open>
  The events are the objects handed to \<^verbatim>\<open>JSON.stringify\<close>, named by their
  \<^verbatim>\<open>type\<close> field. The content of an \<^verbatim>\<open>error\<close> event is the value read from
  \<^verbatim>\<open>e.message\<close>; when that is \<^verbatim>\<open>undefined\<close> the event is written without content.
\<close>

datatype event =
    Tool_start "string list"
  | Tool_result string string
  | Message string
  | Error jsval

fun terminal :: "event \<Rightarrow> bool" where
  "terminal (Message _) = True"
| "terminal (Error _) = True"
| "terminal _ = False"

text \<open>\<^verbatim>\<open>toolCall.id || "unknown"\<close>: an absent id and the empty string are both falsy.\<close>

definition idOrUnknown :: "string option \<Rightarrow> string" where
  "idOrUnknown i = (case i of None \<Rightarrow> ''unknown'' | Some s \<Rightarrow> (if s = [] then ''unknown'' else s))"

subsection \<open>The agent loop\<close>

text \<open>
  The language model is a state machine of its own: \<^verbatim>\<open>invoke\<close> takes the model's
  state and the transcript, and returns a response or throws, and the next state. Any
  sequence of responses is the behaviour of some such model. Binding the tools changes
  which model is invoked, not the loop, so \<open>invoke\<close> stands for
  \<^verbatim>\<open>modelWithTools.invoke\<close>. (The runs embedded are those that reach the loop: a
  \<^verbatim>\<open>bindTools\<close> that throws ends the generator before its first event.)
\<close>

type_synonym 'l model = "'l \<Rightarrow> msg list \<Rightarrow> (thrown + response) \<times> 'l"

text \<open>
  The variables of \<^verbatim>\<open>runStream\<close> that change: the transcript, the events yielded so
  far, the file system the tools act on, and the model's state. \<open>invocations\<close> counts
  the calls of \<^verbatim>\<open>invoke\<close>; the source has no such variable. \<open>uncaught\<close> is the
  exception with which the generator itself ends, if it does: the one thrown inside the
  \<^verbatim>\<open>catch\<close> block.
\<close>

record 'l state =
  currentMessages :: "msg list"
  events :: "event list"
  files :: FileSystem
  llmState :: 'l
  invocations :: nat
  uncaught :: "exn option"

definition yield :: "event \<Rightarrow> 'l state \<Rightarrow> 'l state" where
  "yield e st = st\<lparr>events := events st @ [e]\<rparr>"

definition push :: "msg \<Rightarrow> 'l state \<Rightarrow> 'l state" where
  "push m st = st\<lparr>currentMessages := currentMessages st @ [m]\<rparr>"

text \<open>
  The body of \<^verbatim>\<open>for (const toolCall of response.tool_calls)\<close>: the next state, or
  the exception the handler threw and the state at that moment.
\<close>

definition toolCallStep :: "ToolDef list \<Rightarrow> 'l state \<Rightarrow> ToolCall \<Rightarrow> exn \<times> 'l state + 'l state" where
  "toolCallStep ts st toolCall =
     (case find (\<lambda>t. name t = tc_name toolCall) ts of
        Some tool \<Rightarrow>
          (case func tool (files st) (tc_args toolCall) of
             Inl e \<Rightarrow> Inl (e, st)
           | Inr (result, fs') \<Rightarrow>
               Inr (push (ToolMessage (idOrUnknown (tc_id toolCall)) result)
                      (yield (Tool_result (name tool) result) (st\<lparr>files := fs'\<rparr>))))
      | None \<Rightarrow>
          Inr (push (ToolMessage (idOrUnknown (tc_id toolCall)) ''Error: Tool not found'') st))"

fun toolCallsLoop :: "ToolDef list \<Rightarrow> 'l state \<Rightarrow> ToolCall list \<Rightarrow> exn \<times> 'l state + 'l state" where
  "toolCallsLoop ts st [] = Inr st"
| "toolCallsLoop ts st (toolCall # rest) =
     (case toolCallStep ts st toolCall of
        Inl thrown \<Rightarrow> Inl thrown
      | Inr st' \<Rightarrow> toolCallsLoop ts st' rest)"

text \<open>
  The \<^verbatim>\<open>catch\<close> block: it yields the \<^verbatim>\<open>error\<close> event with \<^verbatim>\<open>e.message\<close>, unless
  reading that throws; then nothing is yielded and the exception leaves the generator.
\<close>

definition catchBlock :: "thrown \<Rightarrow> 'l state \<Rightarrow> 'l state" where
  "catchBlock e st =
     (case e of
        Thrown m \<Rightarrow> yield (Error m) st
      | ThrownUndefined \<Rightarrow> st\<lparr>uncaught := Some (readMessageError ''undefined'')\<rparr>
      | ThrownNull \<Rightarrow> st\<lparr>uncaught := Some (readMessageError ''null'')\<rparr>)"

datatype flow = Continue | Break

text \<open>
  One pass through the \<^verbatim>\<open>try\<close>/\<^verbatim>\<open>catch\<close> inside the \<^verbatim>\<open>while\<close>: \<open>Break\<close> when
  the loop is left (by one of the two \<^verbatim>\<open>break\<close>s, or by the exception of the
  \<^verbatim>\<open>catch\<close> block), \<open>Continue\<close> when control reaches \<^verbatim>\<open>turns++\<close>.
\<close>

definition turnStep :: "ToolDef list \<Rightarrow> 'l model \<Rightarrow> 'l state \<Rightarrow> flow \<times> 'l state" where
  "turnStep ts invoke st =
     (case invoke (llmState st) (currentMessages st) of
        (r, l') \<Rightarrow>
          (let st1 = st\<lparr>llmState := l', invocations := invocations st + 1\<rparr> in
           case r of
             Inl e \<Rightarrow> (Break, catchBlock e st1)
           | Inr response \<Rightarrow>
               (let st2 = push (AIMessage response) st1 in
                case tool_calls response of
                  None \<Rightarrow> (Break, yield (Message (resp_content response)) st2)
                | Some calls \<Rightarrow>
                    (if length calls > 0 then
                       (case toolCallsLoop ts (yield (Tool_start (map tc_name calls)) st2) calls of
                          Inl (e, st3) \<Rightarrow> (Break, catchBlock (errorObject e) st3)
                        | Inr st3 \<Rightarrow> (Continue, st3))
                     else (Break, yield (Message (resp_content response)) st2)))))"

definition maxTurns :: nat where
  "maxTurns = 15"

function whileLoop :: "ToolDef list \<Rightarrow> 'l model \<Rightarrow> nat \<Rightarrow> 'l state \<Rightarrow> nat \<times> 'l state" where
  "whileLoop ts invoke turns st =
     (if turns < maxTurns then
        (case turnStep ts invoke st of
           (Break, st') \<Rightarrow> (turns, st')
         | (Continue, st') \<Rightarrow> whileLoop ts invoke (turns + 1) st')
      else (turns, st))"
  by pat_completeness auto
termination
  by (relation "measure (\<lambda>(ts, invoke, turns, st). maxTurns - turns)") auto

declare whileLoop.simps [simp del]

definition systemPrompt :: "string \<Rightarrow> string" where
  "systemPrompt context =
     ''You are a skilled software engineer agent.\<newline>''
     @ ''            You have access to tools to read, write, and list files.\<newline>''
     @ ''            You also have context from the codebase provided below.\<newline>''
     @ ''\<newline>''
     @ ''            When asked to create or modify code, first understand the codebase context, then plan your changes, and finally use the tools to apply them.\<newline>''
     @ ''\<newline>''
     @ ''            Codebase Context:\<newline>''
     @ ''            '' @ context @ ''\<newline>''
     @ ''            ''"

text \<open>
  \<^verbatim>\<open>runStream(query, messageHistory)\<close> on an agent with the given index and embedder,
  model and file system: the final value of \<^verbatim>\<open>turns\<close> and the final state, whose
  \<open>events\<close> are the sequence the generator yielded.
\<close>

definition runStream ::
  "('v \<Rightarrow> 'v \<Rightarrow> number) \<Rightarrow> 'v Retriever \<Rightarrow> 'l model \<Rightarrow> 'l \<Rightarrow> FileSystem \<Rightarrow> string \<Rightarrow> msg list
     \<Rightarrow> nat \<times> 'l state" where
  "runStream similarity agent invoke l fs query messageHistory =
     (let context = retrieveContext similarity agent query 5 in
      whileLoop tools invoke 0
        \<lparr>currentMessages =
           [SystemMessage (systemPrompt context)] @ messageHistory @ [HumanMessage query],
         events = [],
         files = fs,
         llmState = l,
         invocations = 0,
         uncaught = None\<rparr>)"

subsection \<open>Example inputs\<close>

text \<open>
  Concrete agents, models and file systems on which the theorems below are evaluated: an
  agent without index, a file system holding the root directory only (on a system that
  refuses nothing, with strings of plain characters, which are their own encoding), a model
  that asks for an unregistered tool on every turn, one that reads a file and then answers,
  and one whose \<^verbatim>\<open>invoke\<close> is rejected with \<^verbatim>\<open>undefined\<close>.
\<close>

definition noSimilarity :: "unit \<Rightarrow> unit \<Rightarrow> number" where
  "noSimilarity a b = NaN"

definition noIndex :: "unit Retriever" where
  "noIndex = \<lparr>index = [], embeddings = None\<rparr>"

definition rootOnly :: FileSystem where
  "rootOnly =
     \<lparr>entries = [([], Dir)], cwd = [], refuse = (\<lambda>r. None),
      encode = (\<lambda>s. s), decode = (\<lambda>s. s), listed = (\<lambda>names. names)\<rparr>"

definition alwaysCalls :: "unit model" where
  "alwaysCalls l transcript = (Inr (Response [] (Some [ToolCall ''search'' (JObj []) None])), l)"



text \<open>
  For retrieval: vectors of dimension one with the product as the similarity, three chunks
  (one without a vector), an embedder that returns 1 and one that throws, and the agents
  made of them.
\<close>

definition scalarSimilarity :: "real \<Rightarrow> real \<Rightarrow> number" where
  "scalarSimilarity a b = Num (a * b)"

definition chunkA :: "real DocumentChunk" where
  "chunkA = \<lparr>path = ''src/a.ts'', content = ''export const a = 1;'', embedding = Some 1\<rparr>"

definition chunkB :: "real DocumentChunk" where
  "chunkB = \<lparr>path = ''src/b.ts'', content = ''export const b = 2;'', embedding = Some 2\<rparr>"

definition chunkPlain :: "real DocumentChunk" where
  "chunkPlain = \<lparr>path = ''README.md'', content = ''# readme'', embedding = None\<rparr>"

definition embedOne :: "string \<Rightarrow> thrown + real" where
  "embedOne query = Inr 1"

definition embedFails :: "string \<Rightarrow> thrown + real" where
  "embedFails query = Inl (errorObject (Exn ''embedding service unavailable''))"

definition twoChunks :: "real Retriever" where
  "twoChunks = \<lparr>index = [chunkA, chunkB], embeddings = Some embedOne\<rparr>"

definition failingEmbedder :: "real Retriever" where
  "failingEmbedder = \<lparr>index = [chunkA, chunkB], embeddings = Some embedFails\<rparr>"

definition mixedIndex :: "real Retriever" where
  "mixedIndex = \<lparr>index = [chunkA, chunkPlain, chunkB], embeddings = Some embedOne\<rparr>"

definition plainFirst :: "real Retriever" where
  "plainFirst = \<lparr>index = [chunkPlain, chunkA, chunkB], embeddings = Some embedOne\<rparr>"

text \<open>
  For retrieval with \<open>cosineSimilarity\<close>: an embedder of dimension two that returns the
  first unit vector, and chunks whose vector is orthogonal to it, equal to it, and of
  dimension one (stored by an embedder of another dimension), and one without a vector.
\<close>

definition embedUnit :: "string \<Rightarrow> thrown + number list" where
  "embedUnit query = Inr [Num 1, Num 0]"

definition chunkOrthogonal :: "number list DocumentChunk" where
  "chunkOrthogonal =
     \<lparr>path = ''src/a.ts'', content = ''export const a = 1;'', embedding = Some [Num 0, Num 1]\<rparr>"

definition chunkShort :: "number list DocumentChunk" where
  "chunkShort =
     \<lparr>path = ''src/n.ts'', content = ''export const n = 0;'', embedding = Some [Num 1]\<rparr>"

definition chunkEqual :: "number list DocumentChunk" where
  "chunkEqual =
     \<lparr>path = ''src/b.ts'', content = ''export const b = 2;'', embedding = Some [Num 1, Num 0]\<rparr>"

definition chunkBare :: "number list DocumentChunk" where
  "chunkBare = \<lparr>path = ''README.md'', content = ''# readme'', embedding = None\<rparr>"

definition shortVectorIndex :: "number list Retriever" where
  "shortVectorIndex =
     \<lparr>index = [chunkOrthogonal, chunkShort, chunkEqual], embeddings = Some embedUnit\<rparr>"

definition shortVectorMixed :: "number list Retriever" where
  "shortVectorMixed =
     \<lparr>index = [chunkOrthogonal, chunkBare, chunkShort, chunkEqual], embeddings = Some embedUnit\<rparr>"





definition idle :: "unit state" where
  "idle =
     \<lparr>currentMessages = [], events = [], files = rootOnly, llmState = (), invocations = 0,
      uncaught = None\<rparr>"
section \<open>Properties\<close>

subsection \<open>Unfolding the definitions on concrete inputs\<close>

lemmas sort_defs = sort_cmp_def CountAndMakeRun_def Compare_def insertionPoint.simps Let_def

lemmas retrieval_defs = retrieveContext_def scoredSorted_def score_of_def byScoreDesc_def
  slice0_def formatChunk_def delimiter_def sort_defs

lemmas float_defs = fmul_def fadd_def fdiv_def fsqrt_def elem_def cosineSimilarity_def
  sumOfSquares_def

lemmas tool_defs = read_file_def read_file_func_def write_file_def write_file_func_def
   list_files_def list_files_func_def nullish_def getProp_def template_def
lemmas fs_defs = existsSync_def readFileSync_def writeFileSync_def openForWriting_def
   mkdirSync_def readdirSync_def resolve_def nullBytes_def nullBytesError_def start_def enter_def
   dirname_def children_def sysError_def pathTypeError_def dataTypeError_def received_def
   quoted_def dquoted_def ENOENT_def ENOTDIR_def EISDIR_def EEXIST_def


subsection \<open>Events and invocations of one turn\<close>

lemma events_push [simp]: "events (push m st) = events st"
  by (simp add: push_def)
lemma events_yield [simp]: "events (yield e st) = events st @ [e]"
  by (simp add: yield_def)
lemma invocations_push [simp]: "invocations (push m st) = invocations st"
  by (simp add: push_def)
lemma invocations_yield [simp]: "invocations (yield e st) = invocations st"
  by (simp add: yield_def)
lemma uncaught_push [simp]: "uncaught (push m st) = uncaught st"
  by (simp add: push_def)
lemma uncaught_yield [simp]: "uncaught (yield e st) = uncaught st"
  by (simp add: yield_def)

lemma toolCallStep_Inr:
  "toolCallStep ts st c = Inr st' \<Longrightarrow>
     \<exists>new. events st' = events st @ new \<and> filter terminal new = [] \<and> invocations st' = invocations st
        \<and> uncaught st' = uncaught st"
  by (auto simp: toolCallStep_def split: option.splits sum.splits prod.splits)

lemma toolCallStep_Inl:
  "toolCallStep ts st c = Inl (e, st') \<Longrightarrow> st' = st"
  by (auto simp: toolCallStep_def split: option.splits sum.splits prod.splits)

lemma toolCallsLoop_events:
  "toolCallsLoop ts st cs = r \<Longrightarrow>
     \<exists>new. events (case r of Inl (e, s) \<Rightarrow> s | Inr s \<Rightarrow> s) = events st @ new \<and> filter terminal new = []
        \<and> invocations (case r of Inl (e, s) \<Rightarrow> s | Inr s \<Rightarrow> s) = invocations st
        \<and> uncaught (case r of Inl (e, s) \<Rightarrow> s | Inr s \<Rightarrow> s) = uncaught st"
proof (induction cs arbitrary: st r)
  case Nil
  then show ?case by auto
next
  case (Cons c cs)
  show ?case
  proof (cases "toolCallStep ts st c")
    case (Inl a)
    obtain e s where a: "a = (e, s)" by (cases a)
    with Inl have "s = st" by (auto dest: toolCallStep_Inl)
    with Inl a Cons.prems have "r = Inl (e, st)" by simp
    then show ?thesis by simp
  next
    case (Inr s)
    from toolCallStep_Inr[OF Inr] obtain n1 where
      n1: "events s = events st @ n1" "filter terminal n1 = []" "invocations s = invocations st"
      "uncaught s = uncaught st"
      by blast
    from Inr Cons.prems have "toolCallsLoop ts s cs = r" by simp
    from Cons.IH[OF this] obtain n2 where
      "events (case r of Inl (e, s) \<Rightarrow> s | Inr s \<Rightarrow> s) = events s @ n2" "filter terminal n2 = []"
      "invocations (case r of Inl (e, s) \<Rightarrow> s | Inr s \<Rightarrow> s) = invocations s"
      "uncaught (case r of Inl (e, s) \<Rightarrow> s | Inr s \<Rightarrow> s) = uncaught s"
      by blast
    with n1 show ?thesis by (intro exI[of _ "n1 @ n2"]) simp
  qed
qed

lemma catchBlock_cases:
  "(\<exists>m. catchBlock e st = yield (Error m) st)
   \<or> (\<exists>x. catchBlock e st = st\<lparr>uncaught := Some x\<rparr>)"
  by (cases e) (auto simp: catchBlock_def)

lemma turnStep_Break:
  assumes "turnStep ts invoke st = (Break, st')"
  shows "\<exists>new. filter terminal new = [] \<and> invocations st' = invocations st + 1
           \<and> ((\<exists>e. terminal e \<and> events st' = events st @ new @ [e]) \<and> uncaught st' = uncaught st
                \<or> events st' = events st @ new \<and> uncaught st' \<noteq> None)"
proof -
  obtain r l' where inv: "invoke (llmState st) (currentMessages st) = (r, l')"
    by (cases "invoke (llmState st) (currentMessages st)")
  let ?st1 = "st\<lparr>llmState := l', invocations := invocations st + 1\<rparr>"
  show ?thesis
  proof (cases r)
    case (Inl e)
    with assms inv have st': "st' = catchBlock e ?st1" by (simp add: turnStep_def)
    from catchBlock_cases[of e ?st1] show ?thesis
    proof
      assume "\<exists>m. catchBlock e ?st1 = yield (Error m) ?st1"
      then obtain m where "st' = yield (Error m) ?st1" using st' by auto
      then show ?thesis by (intro exI[of _ "[]"]) simp
    next
      assume "\<exists>x. catchBlock e ?st1 = ?st1\<lparr>uncaught := Some x\<rparr>"
      then obtain x where "st' = ?st1\<lparr>uncaught := Some x\<rparr>" using st' by auto
      then show ?thesis by (intro exI[of _ "[]"]) simp
    qed
  next
    case (Inr resp)
    let ?st2 = "push (AIMessage resp) ?st1"
    show ?thesis
    proof (cases "tool_calls resp")
      case None
      with assms inv Inr have "st' = yield (Message (resp_content resp)) ?st2"
        by (simp add: turnStep_def)
      then show ?thesis by (intro exI[of _ "[]"]) simp
    next
      case (Some calls)
      show ?thesis
      proof (cases "length calls > 0")
        case False
        with assms inv Inr Some have "st' = yield (Message (resp_content resp)) ?st2"
          by (simp add: turnStep_def)
        then show ?thesis by (intro exI[of _ "[]"]) simp
      next
        case True
        let ?st3 = "yield (Tool_start (map tc_name calls)) ?st2"
        from toolCallsLoop_events[OF refl, of ts ?st3 calls] obtain new where
          new: "events (case toolCallsLoop ts ?st3 calls of Inl (e, s) \<Rightarrow> s | Inr s \<Rightarrow> s) = events ?st3 @ new"
            "filter terminal new = []"
            "invocations (case toolCallsLoop ts ?st3 calls of Inl (e, s) \<Rightarrow> s | Inr s \<Rightarrow> s) = invocations ?st3"
            "uncaught (case toolCallsLoop ts ?st3 calls of Inl (e, s) \<Rightarrow> s | Inr s \<Rightarrow> s) = uncaught ?st3"
          by blast
        show ?thesis
        proof (cases "toolCallsLoop ts ?st3 calls")
          case (Inl a)
          obtain e s where a: "a = (e, s)" by (cases a)
          from assms inv Inr Some True Inl a have st': "st' = yield (Error (JStr (message e))) s"
            by (simp add: turnStep_def catchBlock_def errorObject_def)
          from new Inl a have "events s = events st @ (Tool_start (map tc_name calls) # new)"
            "invocations s = invocations st + 1" "uncaught s = uncaught st" by simp_all
          with st' new(2) show ?thesis
            by (intro exI[of _ "Tool_start (map tc_name calls) # new"]) simp
        next
          case (Inr s)
          with assms inv \<open>r = Inr resp\<close> Some True show ?thesis by (simp add: turnStep_def)
        qed
      qed
    qed
  qed
qed

lemma turnStep_Continue:
  assumes "turnStep ts invoke st = (Continue, st')"
  shows "\<exists>new. events st' = events st @ new \<and> filter terminal new = []
           \<and> invocations st' = invocations st + 1 \<and> uncaught st' = uncaught st"
proof -
  obtain r l' where inv: "invoke (llmState st) (currentMessages st) = (r, l')"
    by (cases "invoke (llmState st) (currentMessages st)")
  let ?st1 = "st\<lparr>llmState := l', invocations := invocations st + 1\<rparr>"
  from assms inv obtain resp calls where
    r: "r = Inr resp" and tc: "tool_calls resp = Some calls" and pos: "length calls > 0"
    by (auto simp: turnStep_def Let_def split: sum.splits option.splits if_splits prod.splits)
  let ?st3 = "yield (Tool_start (map tc_name calls)) (push (AIMessage resp) ?st1)"
  from assms inv r tc pos have loop: "toolCallsLoop ts ?st3 calls = Inr st'"
    by (auto simp: turnStep_def Let_def split: sum.splits prod.splits)
  from toolCallsLoop_events[OF loop] obtain new where
    "events st' = events ?st3 @ new" "filter terminal new = []" "invocations st' = invocations ?st3"
    "uncaught st' = uncaught ?st3"
    by auto
  then show ?thesis
    by (intro exI[of _ "Tool_start (map tc_name calls) # new"]) simp
qed

lemma whileLoop_run:
  assumes "whileLoop ts invoke t st = (t', st')" and "t \<le> maxTurns"
  shows "t \<le> t' \<and> t' \<le> maxTurns \<and>
         (\<exists>new. filter terminal new = [] \<and>
            (if t' < maxTurns
             then ((\<exists>e. terminal e \<and> events st' = events st @ new @ [e]) \<and> uncaught st' = uncaught st
                   \<or> events st' = events st @ new \<and> uncaught st' \<noteq> None)
                  \<and> invocations st' = invocations st + (t' - t) + 1
             else events st' = events st @ new \<and> uncaught st' = uncaught st
                  \<and> invocations st' = invocations st + (t' - t)))"
  using assms
proof (induction ts invoke t st rule: whileLoop.induct)
  case (1 ts invoke turns st)
  show ?case
  proof (cases "turns < maxTurns")
    case False
    with "1.prems" have "t' = turns" "st' = st" "turns = maxTurns"
      by (simp_all add: whileLoop.simps)
    then show ?thesis by simp
  next
    case True
    obtain f s where ts: "turnStep ts invoke st = (f, s)" by (cases "turnStep ts invoke st")
    show ?thesis
    proof (cases f)
      case Break
      with True ts "1.prems" have eq: "t' = turns" "st' = s" by (simp_all add: whileLoop.simps)
      from turnStep_Break[OF ts[unfolded Break]] eq True show ?thesis by auto
    next
      case Continue
      with True ts "1.prems" have rec: "whileLoop ts invoke (turns + 1) s = (t', st')"
        by (simp add: whileLoop.simps)
      from True have le: "turns + 1 \<le> maxTurns" by simp
      from "1.IH"[OF True ts[symmetric] Continue rec le]
      obtain new where ih: "turns + 1 \<le> t'" "t' \<le> maxTurns" "filter terminal new = []"
        "(if t' < maxTurns
             then ((\<exists>e. terminal e \<and> events st' = events s @ new @ [e]) \<and> uncaught st' = uncaught s
                   \<or> events st' = events s @ new \<and> uncaught st' \<noteq> None)
                  \<and> invocations st' = invocations s + (t' - (turns + 1)) + 1
             else events st' = events s @ new \<and> uncaught st' = uncaught s
                  \<and> invocations st' = invocations s + (t' - (turns + 1)))"
        by blast
      from turnStep_Continue[OF ts[unfolded Continue]] obtain n1 where
        n1: "events s = events st @ n1" "filter terminal n1 = []" "invocations s = invocations st + 1"
        "uncaught s = uncaught st"
        by blast
      show ?thesis
      proof (cases "t' < maxTurns")
        case True
        with ih n1 show ?thesis
          by (intro conjI exI[of _ "n1 @ new"]) auto
      next
        case False
        with ih n1 show ?thesis
          by (intro conjI exI[of _ "n1 @ new"]) auto
      qed
    qed
  qed
qed


subsection \<open>The while loop\<close>

lemma find_tools_search: "find (\<lambda>t. name t = ''search'') tools = None"
  by (simp add: tools_def read_file_def write_file_def list_files_def)

lemma alwaysCalls_turn: "fst (turnStep tools alwaysCalls st) = Continue"
  by (simp add: turnStep_def alwaysCalls_def toolCallStep_def find_tools_search)

lemma whileLoop_all_Continue:
  "(\<And>s. fst (turnStep ts invoke s) = Continue) \<Longrightarrow> fst (whileLoop ts invoke t st) = max t maxTurns"
proof (induction ts invoke t st rule: whileLoop.induct)
  case (1 ts invoke turns st)
  show ?case
  proof (cases "turns < maxTurns")
    case False
    then show ?thesis by (simp add: whileLoop.simps)
  next
    case True
    obtain f s where ts: "turnStep ts invoke st = (f, s)" by (cases "turnStep ts invoke st")
    with "1.prems"[of st] have f: "f = Continue" by simp
    from "1.IH"[OF True ts[symmetric] f "1.prems"]
    have "fst (whileLoop ts invoke (turns + 1) s) = max (turns + 1) maxTurns" .
    with True ts f show ?thesis by (simp add: whileLoop.simps[of ts invoke turns])
  qed
qed

lemma runStream_whileLoop:
  "runStream cs agent invoke l fs query history =
     whileLoop tools invoke 0
        \<lparr>currentMessages =
           [SystemMessage (systemPrompt (retrieveContext cs agent query 5))] @ history @ [HumanMessage query],
         events = [], files = fs, llmState = l, invocations = 0, uncaught = None\<rparr>"
  by (simp add: runStream_def)

lemma runStream_run:
  assumes "runStream cs agent invoke l fs query history = (t, st)"
  shows "t \<le> maxTurns \<and>
         (\<exists>new. filter terminal new = [] \<and>
            (if t < maxTurns
             then (if uncaught st = None then (\<exists>e. terminal e \<and> events st = new @ [e])
                   else events st = new)
                  \<and> invocations st = t + 1
             else events st = new \<and> uncaught st = None \<and> invocations st = t))"
proof -
  from whileLoop_run[OF assms[unfolded runStream_whileLoop]]
  show ?thesis by (cases "t < maxTurns") auto
qed



subsection \<open>Terminal events\<close>




subsection \<open>The turn budget\<close>

text \<open>
  Claim C2. Whatever the model does, a run of \<^verbatim>\<open>runStream\<close> returns after at least one
  and at most 15 invocations of the model: one more than the final value of \<^verbatim>\<open>turns\<close>
  when the loop is left by a \<^verbatim>\<open>break\<close>, and 15 when the budget is used up.
  (\<open>whileLoop\<close> is a total function: its termination is proved where it is defined.)
\<close>

theorem runStream_bounded:
  "invocations (snd (runStream cs agent invoke l fs query history)) \<le> 15
   \<and> 1 \<le> invocations (snd (runStream cs agent invoke l fs query history))
   \<and> fst (runStream cs agent invoke l fs query history) \<le> 15
   \<and> invocations (snd (runStream cs agent invoke l fs query history))
       = (if fst (runStream cs agent invoke l fs query history) < 15
          then fst (runStream cs agent invoke l fs query history) + 1 else 15)"
proof -
  obtain t st where r: "runStream cs agent invoke l fs query history = (t, st)"
    by (cases "runStream cs agent invoke l fs query history")
  from runStream_run[OF r] r show ?thesis
    by (auto simp: maxTurns_def split: if_splits)
qed

theorem runStream_bounded_witness:
  "invocations (snd (runStream noSimilarity noIndex alwaysCalls () rootOnly ''q'' [])) = 15"
proof -
  have "fst (runStream noSimilarity noIndex alwaysCalls () rootOnly ''q'' []) = maxTurns"
    unfolding runStream_whileLoop
    by (simp add: whileLoop_all_Continue[OF alwaysCalls_turn])
  with runStream_bounded[of noSimilarity noIndex alwaysCalls "()" rootOnly "''q''" "[]"]
  show ?thesis by (simp add: maxTurns_def)
qed

subsection \<open>Rounding\<close>

text \<open>
  \<open>rnd x\<close> is determined by the binade of \<open>x\<close> and the integer nearest to \<open>x\<close>
  in units of the last place; it leaves the integers below \<open>2 ^ 53\<close> as they are.
\<close>

lemma ulp_eq:
  assumes "2 powr of_int e \<le> \<bar>x\<bar>" "\<bar>x\<bar> < 2 powr (of_int e + 1)" "- 1022 \<le> e"
  shows "ulp x = 2 powr (of_int e - 52)"
proof -
  from assms(1) have pos: "0 < \<bar>x\<bar>" by (smt (verit) powr_gt_zero)
  have "\<lfloor>log 2 \<bar>x\<bar>\<rfloor> = e"
    using assms(1,2) pos by (subst floor_log_eq_powr_iff) auto
  with assms(3) show ?thesis by (simp add: ulp_def max_def)
qed

lemma roundEven_near: "\<bar>x - of_int n\<bar> < 1 / 2 \<Longrightarrow> roundEven x = n"
proof -
  assume a: "\<bar>x - of_int n\<bar> < 1 / 2"
  have "\<lfloor>x\<rfloor> = n \<or> \<lfloor>x\<rfloor> = n - 1" using a unfolding abs_less_iff by linarith
  then show ?thesis
  proof
    assume f: "\<lfloor>x\<rfloor> = n"
    then have "of_int n \<le> x" by (metis of_int_floor_le)
    with a f show ?thesis by (simp add: roundEven_def Let_def abs_less_iff)
  next
    assume f: "\<lfloor>x\<rfloor> = n - 1"
    then have "x < of_int n" by linarith
    with a f show ?thesis by (auto simp: roundEven_def Let_def abs_less_iff)
  qed
qed

lemma roundEven_int [simp]: "roundEven (of_int n) = n"
  by (rule roundEven_near) simp

lemma rnd_near:
  assumes x: "0 < x" and lo: "lo \<le> x" and hi: "x < 2 * lo"
    and e: "lo = 2 powr of_int e" "- 1022 \<le> e"
    and n: "\<bar>x * 2 ^ 52 / lo - of_int n\<bar> < 1 / 2"
    and y: "of_int n * lo / 2 ^ 52 < 2 ^ 1024"
  shows "rnd x = Num (of_int n * lo / 2 ^ 52)"
proof -
  have "2 powr (of_int e + 1) = 2 * lo" by (simp add: e powr_add)
  with lo hi x e have u: "ulp x = 2 powr (of_int e - 52)"
    by (intro ulp_eq) auto
  have "2 powr (of_int e - 52) = lo / 2 ^ 52"
    by (simp add: e powr_diff)
  with u have u': "ulp x = lo / 2 ^ 52" by simp
  have lopos: "0 < lo" by (simp add: e)
  have "\<bar>x\<bar> / ulp x = x * 2 ^ 52 / lo" using x lopos by (simp add: u')
  with n have "roundEven (\<bar>x\<bar> / ulp x) = n" by (simp add: roundEven_near)
  with x y show ?thesis by (simp add: rnd_def Let_def u')
qed

lemma rnd_0 [simp]: "rnd 0 = Num 0"
  by (simp add: rnd_def)

lemma rnd_1 [simp]: "rnd 1 = Num 1"
  using rnd_near[of 1 1 0 "2 ^ 52"] by simp

lemma rnd_2 [simp]: "rnd 2 = Num 2"
  using rnd_near[of 2 2 1 "2 ^ 52"] by simp




lemma rnd_int:
  assumes "0 < k" "k < 2 ^ 53"
  shows "rnd (of_int k) = Num (of_int k)"
proof -
  define e where "e = \<lfloor>log 2 (of_int k)\<rfloor>"
  define lo :: real where "lo = 2 powr of_int e"
  have kpos: "0 < (of_int k :: real)" using assms(1) by simp
  have k1: "1 \<le> (of_int k :: real)" using assms(1) by simp
  have bounds: "(2::real) powr of_int e \<le> of_int k \<and> (of_int k :: real) < 2 powr (of_int e + 1)"
    using floor_log_eq_powr_iff[of "of_int k" 2 e] kpos by (simp add: e_def)
  have e0: "0 \<le> e" unfolding e_def using k1 by simp
  have "(of_int k :: real) < 2 powr 53" using assms(2)
    by (metis of_int_less_iff of_int_numeral of_int_power powr_numeral zero_less_numeral less_eq_real_def)
  with bounds have "2 powr of_int e < (2::real) powr 53" by linarith
  then have "of_int e < (53::real)" by (rule powr_less_cancel) simp
  then have e52: "e \<le> 52" by linarith
  have lo_nat: "lo = 2 ^ nat e" unfolding lo_def using e0 by (simp add: powr_realpow[symmetric])
  have split: "(2::real) ^ 52 = 2 ^ nat (52 - e) * 2 ^ nat e"
    using e0 e52 by (simp add: power_add[symmetric] nat_add_distrib[symmetric])
  have lopos: "0 < lo" by (simp add: lo_def)
  have q: "of_int k * 2 ^ 52 / lo = of_int (k * 2 ^ nat (52 - e))"
    unfolding split lo_nat by simp
  have hi: "of_int k < 2 * lo" using bounds by (simp add: lo_def powr_add)
  have lo: "lo \<le> of_int k" using bounds by (simp add: lo_def)
  have restored: "of_int (k * 2 ^ nat (52 - e)) * lo / 2 ^ 52 = (of_int k :: real)"
    unfolding split lo_nat by simp
  have "(of_int k :: real) < 2 ^ 53" using assms(2)
    by (metis of_int_less_iff of_int_numeral of_int_power)
  also have "\<dots> < 2 ^ 1024" by simp
  finally have big: "of_int (k * 2 ^ nat (52 - e)) * lo / 2 ^ 52 < 2 ^ 1024" by (simp only: restored)
  have "rnd (of_int k) = Num (of_int (k * 2 ^ nat (52 - e)) * lo / 2 ^ 52)"
  proof (rule rnd_near[where e = e and lo = lo, OF kpos lo hi _ _ _ big])
    show "lo = 2 powr of_int e" by (simp add: lo_def)
    show "- 1022 \<le> e" using e0 by simp
    show "\<bar>of_int k * 2 ^ 52 / lo - of_int (k * 2 ^ nat (52 - e))\<bar> < 1 / 2"
      by (simp only: q) 
  qed
  then show ?thesis by (simp only: restored)
qed

lemma rnd_numeral [simp]: "numeral w < (2::int) ^ 53 \<Longrightarrow> rnd (numeral w) = Num (numeral w)"
  using rnd_int[of "numeral w"] by simp




lemma fmul_zero [simp]: "fmul (Num 0) (Num 0) = Num 0"
  by (simp add: fmul_def)

lemma fadd_zero [simp]: "fadd (Num 0) (Num 0) = Num 0"
  by (simp add: fadd_def)







subsection \<open>\<^verbatim>\<open>cosineSimilarity\<close>: symmetry, zero vectors, a vector and itself\<close>







subsection \<open>Sorting\<close>

text \<open>
  The array \<^verbatim>\<open>sort\<close> returns holds the elements it was given; and it is in order
  whenever the comparator agrees with some linear order of keys on the elements of the
  array.
\<close>

lemma extendRun_le: "extendRun c d p xs \<le> length xs"
  by (induction xs arbitrary: p) (auto simp: Let_def)

lemma CountAndMakeRun_length:
  "CountAndMakeRun c xs = (n, ys) \<Longrightarrow> n \<le> length xs \<and> length ys = length xs"
  using extendRun_le[of c _ _ "tl (tl xs)"]
  by (auto simp: CountAndMakeRun_def Let_def split: list.splits if_splits)

lemma mset_take_drop: "mset (take k zs) + mset (drop k zs) = mset zs"
  by (metis append_take_drop_id mset_append)

lemma CountAndMakeRun_mset:
  "CountAndMakeRun c xs = (n, ys) \<Longrightarrow> mset ys = mset xs"
  by (auto simp: CountAndMakeRun_def Let_def mset_take_drop split: list.splits if_splits)

lemma BinaryInsertionSort_mset:
  "mset (BinaryInsertionSort c run rest) = mset run + mset rest"
proof (induction rest arbitrary: run)
  case Nil
  then show ?case by simp
next
  case (Cons pivot rest)
  have "mset (take k run @ pivot # drop k run) = add_mset pivot (mset run)" for k
    by (metis append_take_drop_id mset_append union_mset_add_mset_right mset.simps(2))
  with Cons show ?case by (simp add: Let_def)
qed

lemma mset_sort_cmp: "mset (sort_cmp c xs) = mset xs"
proof (cases "length xs < 2")
  case True
  then show ?thesis by (simp add: sort_cmp_def)
next
  case False
  obtain n ys where r: "CountAndMakeRun c xs = (n, ys)" by (cases "CountAndMakeRun c xs")
  from CountAndMakeRun_mset[OF r] have "mset (take n ys) + mset (drop n ys) = mset xs"
    by (simp add: mset_take_drop)
  with False r show ?thesis by (simp add: sort_cmp_def BinaryInsertionSort_mset)
qed

lemma extendRun_ascending:
  assumes "\<forall>x \<in> S. \<forall>y \<in> S. before c x y = (key x < key y)"
    and "p \<in> S" and "set xs \<subseteq> S"
  shows "sorted (map key (p # take (extendRun c False p xs) xs))"
  using assms(2,3)
proof (induction xs arbitrary: p)
  case Nil
  then show ?case by simp
next
  case (Cons cur rest)
  show ?case
  proof (cases "negative (Compare c cur p)")
    case True
    then show ?thesis by simp
  next
    case False
    with assms(1) Cons.prems have le: "key p \<le> key cur" by (auto simp: before_def)
    from Cons.prems have "sorted (map key (cur # take (extendRun c False cur rest) rest))"
      by (intro Cons.IH) auto
    with le False show ?thesis by auto
  qed
qed

lemma extendRun_descending:
  assumes "\<forall>x \<in> S. \<forall>y \<in> S. before c x y = (key x < key y)"
    and "p \<in> S" and "set xs \<subseteq> S"
  shows "sorted (rev (map key (p # take (extendRun c True p xs) xs)))"
  using assms(2,3)
proof (induction xs arbitrary: p)
  case Nil
  then show ?case by simp
next
  case (Cons cur rest)
  show ?case
  proof (cases "negative (Compare c cur p)")
    case False
    then show ?thesis by simp
  next
    case True
    with assms(1) Cons.prems have le: "key cur < key p" by (auto simp: before_def)
    from Cons.prems have "sorted (rev (map key (cur # take (extendRun c True cur rest) rest)))"
      by (intro Cons.IH) auto
    with le True show ?thesis by (auto simp: sorted_append)
  qed
qed

lemma CountAndMakeRun_sorted:
  assumes "\<forall>x \<in> S. \<forall>y \<in> S. before c x y = (key x < key y)"
    and "set xs \<subseteq> S" and "2 \<le> length xs" and "CountAndMakeRun c xs = (n, ys)"
  shows "sorted (map key (take n ys))"
proof -
  from assms(3) obtain h l rest where xs: "xs = h # l # rest"
    by (cases xs; cases "tl xs") auto
  from assms(2) xs have mem: "h \<in> S" "l \<in> S" "set rest \<subseteq> S" by auto
  show ?thesis
  proof (cases "negative (Compare c l h)")
    case False
    with assms(1) mem have le: "key h \<le> key l" by (auto simp: before_def)
    from False assms(4) xs have "n = 2 + extendRun c False l rest" "ys = xs"
      by (auto simp: CountAndMakeRun_def Let_def)
    with extendRun_ascending[OF assms(1) mem(2,3)] le xs show ?thesis by auto
  next
    case True
    with assms(1) mem have le: "key l < key h" by (auto simp: before_def)
    let ?m = "extendRun c True l rest"
    from True assms(4) xs have n: "n = 2 + ?m" and ys: "ys = rev (take n xs) @ drop n xs"
      by (auto simp: CountAndMakeRun_def Let_def)
    have "?m \<le> length rest" by (rule extendRun_le)
    with n xs have "length (rev (take n xs)) = n" by simp
    with ys have "take n ys = rev (take n xs)" by simp
    also from n xs have "\<dots> = rev (h # l # take ?m rest)" by simp
    finally have t: "take n ys = rev (h # l # take ?m rest)" .
    from extendRun_descending[OF assms(1) mem(2,3)] le
    have "sorted (rev (map key (h # l # take ?m rest)))" by (auto simp: sorted_append)
    then show ?thesis unfolding t by (simp only: rev_map)
  qed
qed

lemma insertionPoint_bounds:
  "\<forall>x \<in> S. \<forall>y \<in> S. before c x y = (key x < key y)
     \<Longrightarrow> set run \<subseteq> S \<Longrightarrow> pivot \<in> S \<Longrightarrow> sorted (map key run)
     \<Longrightarrow> left \<le> right \<Longrightarrow> right \<le> length run
     \<Longrightarrow> \<forall>x \<in> set (take left run). key x \<le> key pivot
     \<Longrightarrow> \<forall>x \<in> set (drop right run). key pivot < key x
     \<Longrightarrow> (\<forall>x \<in> set (take (insertionPoint c run pivot left right) run). key x \<le> key pivot)
        \<and> (\<forall>x \<in> set (drop (insertionPoint c run pivot left right) run). key pivot < key x)"
proof (induction c run pivot left right rule: insertionPoint.induct)
  case (1 c run pivot left right)
  note key = "1.prems"(1) and sub = "1.prems"(2) and piv = "1.prems"(3) and srt0 = "1.prems"(4)
    and lr = "1.prems"(5) and rl = "1.prems"(6) and inv1 = "1.prems"(7) and inv2 = "1.prems"(8)
  show ?case
  proof (cases "left < right")
    case False
    with lr have "left = right" by simp
    with inv1 inv2 show ?thesis by (simp add: insertionPoint.simps[of c run pivot right right])
  next
    case True
    define mid where "mid = left + (right - left) div 2"
    from True have mid: "left \<le> mid" "mid < right" by (auto simp: mid_def)
    with rl have len: "mid < length run" by simp
    then have "run ! mid \<in> set run" by simp
    with sub have memS: "run ! mid \<in> S" by blast
    from srt0 have srt: "sorted (map key (take (Suc mid) run) @ map key (drop (Suc mid) run))"
        and srt2: "sorted (map key (take mid run) @ map key (drop mid run))"
      by (simp_all only: map_append[symmetric] append_take_drop_id)
    show ?thesis
    proof (cases "negative (Compare c pivot (run ! mid))")
      case neg: True
      with key piv memS have lt: "key pivot < key (run ! mid)" by (auto simp: before_def)
      have i2: "\<forall>x \<in> set (drop mid run). key pivot < key x"
      proof
        fix x assume "x \<in> set (drop mid run)"
        with len have "x = run ! mid \<or> x \<in> set (drop (Suc mid) run)"
          by (simp add: Cons_nth_drop_Suc[symmetric])
        moreover have "key (run ! mid) \<le> key y" if "y \<in> set (drop (Suc mid) run)" for y
          using srt that len by (auto simp: sorted_append take_Suc_conv_app_nth)
        ultimately show "key pivot < key x" using lt by force
      qed
      from mid rl have "left \<le> mid" "mid \<le> length run" by simp_all
      from "1.IH"(1)[OF True mid_def neg key sub piv srt0 this inv1 i2] True neg
      show ?thesis by (simp add: insertionPoint.simps[of c run pivot left right] mid_def[symmetric])
    next
      case nonneg: False
      with key piv memS have le: "key (run ! mid) \<le> key pivot" by (auto simp: before_def)
      have i1: "\<forall>x \<in> set (take (mid + 1) run). key x \<le> key pivot"
      proof
        fix x assume "x \<in> set (take (mid + 1) run)"
        with len have "x = run ! mid \<or> x \<in> set (take mid run)"
          by (auto simp: take_Suc_conv_app_nth)
        moreover have "key y \<le> key (run ! mid)" if "y \<in> set (take mid run)" for y
          using srt2 that len by (auto simp: sorted_append Cons_nth_drop_Suc[symmetric])
        ultimately show "key x \<le> key pivot" using le by force
      qed
      from mid have "mid + 1 \<le> right" by simp
      from "1.IH"(2)[OF True mid_def nonneg key sub piv srt0 this rl i1 inv2] True nonneg
      show ?thesis by (simp add: insertionPoint.simps[of c run pivot left right] mid_def[symmetric])
    qed
  qed
qed

lemma insert_sorted:
  assumes "sorted (map key run)"
    and "\<forall>x \<in> set (take k run). key x \<le> key pivot"
    and "\<forall>x \<in> set (drop k run). key pivot < key x"
  shows "sorted (map key (take k run @ pivot # drop k run))"
proof -
  from assms(1) have "sorted (map key (take k run) @ map key (drop k run))"
    by (simp only: map_append[symmetric] append_take_drop_id)
  with assms(2,3) show ?thesis by (auto simp: sorted_append intro: less_imp_le)
qed

lemma BinaryInsertionSort_sorted:
  assumes "\<forall>x \<in> S. \<forall>y \<in> S. before c x y = (key x < key y)"
  shows "set run \<subseteq> S \<Longrightarrow> set rest \<subseteq> S \<Longrightarrow> sorted (map key run)
         \<Longrightarrow> sorted (map key (BinaryInsertionSort c run rest))"
proof (induction rest arbitrary: run)
  case Nil
  then show ?case by simp
next
  case (Cons pivot rest)
  let ?k = "insertionPoint c run pivot 0 (length run)"
  from Cons.prems have p: "pivot \<in> S" by simp
  from insertionPoint_bounds[OF assms Cons.prems(1) p Cons.prems(3), of 0 "length run"]
  have "(\<forall>x \<in> set (take ?k run). key x \<le> key pivot) \<and> (\<forall>x \<in> set (drop ?k run). key pivot < key x)"
    by simp
  then have "sorted (map key (take ?k run @ pivot # drop ?k run))"
    using insert_sorted[OF Cons.prems(3)] by blast
  moreover have "set (take ?k run @ pivot # drop ?k run) \<subseteq> S"
    using Cons.prems(1) p by (auto dest: in_set_takeD in_set_dropD)
  moreover from Cons.prems have "set rest \<subseteq> S" by simp
  ultimately have "sorted (map key (BinaryInsertionSort c (take ?k run @ pivot # drop ?k run) rest))"
    by (intro Cons.IH)
  then show ?case by (simp add: Let_def)
qed

lemma sorted_sort_cmp_key:
  assumes "\<forall>x \<in> S. \<forall>y \<in> S. before c x y = (key x < key y)" and "set xs \<subseteq> S"
  shows "sorted (map key (sort_cmp c xs))"
proof (cases "length xs < 2")
  case True
  then have "xs = [] \<or> (\<exists>x. xs = [x])" by (cases xs; cases "tl xs") auto
  with True show ?thesis by (auto simp: sort_cmp_def)
next
  case False
  obtain n ys where r: "CountAndMakeRun c xs = (n, ys)" by (cases "CountAndMakeRun c xs")
  from False have len: "2 \<le> length xs" by simp
  from CountAndMakeRun_mset[OF r] assms(2) have "set ys \<subseteq> S" by (metis set_mset_mset)
  then have "set (take n ys) \<subseteq> S" "set (drop n ys) \<subseteq> S"
    by (auto dest: in_set_takeD in_set_dropD)
  with CountAndMakeRun_sorted[OF assms len r]
  have "sorted (map key (BinaryInsertionSort c (take n ys) (drop n ys)))"
    by (intro BinaryInsertionSort_sorted[OF assms(1)])
  with False r show ?thesis by (simp add: sort_cmp_def)
qed

subsection \<open>Sorting by score\<close>

lemma num_le_trans: "num_le a b \<Longrightarrow> num_le b c \<Longrightarrow> num_le a c"
  by (cases a; cases b; cases c) auto

lemma set_sort_cmp: "set (sort_cmp cmp xs) = set xs"
  by (metis mset_sort_cmp set_mset_mset)

lemma length_sort_cmp: "length (sort_cmp cmp xs) = length xs"
  by (metis mset_sort_cmp size_mset)

lemma arctan_bounds:
  "- arctan r < 2" "- 2 < - arctan r" "- arctan r \<le> 2" "- 2 \<le> - arctan r"
  "\<not> 2 \<le> - arctan r" "\<not> - arctan r \<le> - 2" "\<not> 2 < - arctan r" "\<not> - arctan r < - 2"
  "arctan r < 2" "- 2 < arctan r" "arctan r \<le> 2" "- 2 \<le> arctan r"
  "\<not> 2 \<le> arctan r" "\<not> arctan r \<le> - 2" "\<not> 2 < arctan r" "\<not> arctan r < - 2"
  using arctan_ubound[of r] arctan_lbound[of r] pi_half_less_two by linarith+

lemma sorted_sort_cmp:
  assumes "\<forall>x \<in> set xs. \<not> isNaN (snd x)"
  shows "sorted_wrt desc (sort_cmp byScoreDesc xs)"
proof -
  define rank :: "number \<Rightarrow> real" where
    "rank = (\<lambda>s. case s of Num r \<Rightarrow> - arctan r | PInf \<Rightarrow> - 2 | NInf \<Rightarrow> 2 | NaN \<Rightarrow> 0)"
  define key :: "'a scored \<Rightarrow> real" where "key = (\<lambda>s. rank (snd s))"
  let ?S = "{s :: 'a scored. \<not> isNaN (snd s)}"
  have lt: "negative (Compare (\<lambda>a b. num_sub b a) s t) = (rank s < rank t)"
    if "\<not> isNaN s" "\<not> isNaN t" for s t
    using that
    by (cases s; cases t) (simp_all add: rank_def Compare_def arctan_less_iff arctan_bounds)
  have le: "num_le t s" if "\<not> isNaN s" "\<not> isNaN t" "rank s \<le> rank t" for s t
    using that
    by (cases s; cases t) (simp_all add: rank_def arctan_le_iff arctan_bounds)
  have k: "\<forall>x \<in> ?S. \<forall>y \<in> ?S. before byScoreDesc x y = (key x < key y)"
  proof (intro ballI)
    fix x y :: "'a scored"
    assume "x \<in> ?S" "y \<in> ?S"
    then have "negative (Compare (\<lambda>a b. num_sub b a) (snd x) (snd y)) = (rank (snd x) < rank (snd y))"
      by (intro lt) simp_all
    then show "before byScoreDesc x y = (key x < key y)"
      by (simp add: before_def Compare_def byScoreDesc_def key_def)
  qed
  from assms have sub: "set xs \<subseteq> ?S" by auto
  from sorted_sort_cmp_key[OF k sub]
  have "sorted_wrt (\<lambda>x y. key x \<le> key y) (sort_cmp byScoreDesc xs)"
    by (simp add: sorted_map)
  then show ?thesis
  proof (rule sorted_wrt_mono_rel[rotated])
    fix x y
    assume "x \<in> set (sort_cmp byScoreDesc xs)" "y \<in> set (sort_cmp byScoreDesc xs)"
      and "key x \<le> key y"
    with assms show "desc x y"
      by (simp add: set_sort_cmp desc_def key_def le)
  qed
qed

lemma sorted_wrt_take_drop:
  assumes "sorted_wrt P xs" and "a \<in> set (take n xs)" and "b \<in> set (drop n xs)"
  shows "P a b"
proof -
  from assms(1) have "sorted_wrt P (take n xs @ drop n xs)" by simp
  with assms(2,3) show ?thesis unfolding sorted_wrt_append by blast
qed

lemma scoredSorted_sorted:
  assumes "\<forall>c \<in> set idx. \<not> isNaN (score_of cs q c)"
  shows "sorted_wrt desc (scoredSorted cs q idx)"
  unfolding scoredSorted_def using assms by (intro sorted_sort_cmp) auto

lemma mset_scoredSorted:
  "mset (scoredSorted cs q idx) = mset (map (\<lambda>chunk. (chunk, score_of cs q chunk)) idx)"
  by (simp add: scoredSorted_def mset_sort_cmp)

lemma set_scoredSorted:
  "set (scoredSorted cs q idx) = (\<lambda>chunk. (chunk, score_of cs q chunk)) ` set idx"
  by (simp add: scoredSorted_def set_sort_cmp)

lemma length_scoredSorted: "length (scoredSorted cs q idx) = length idx"
  by (simp add: scoredSorted_def length_sort_cmp)

lemma retrieveContext_ranked:
  assumes "index agent = first # rest" and "embedding first = Some v"
    and "embeddings agent = Some embedQuery" and "embedQuery query = Inr q"
  shows "retrieveContext cs agent query k =
           join delimiter (map formatChunk (slice0 (scoredSorted cs q (index agent)) k))"
  using assms by (simp add: retrieveContext_def)

lemma sorted_two: "scoredSorted scalarSimilarity 1 [chunkA, chunkB] = [(chunkB, Num 2), (chunkA, Num 1)]"
  by (simp add: retrieval_defs scalarSimilarity_def chunkA_def chunkB_def)

lemma sorted_mixed:
  "scoredSorted scalarSimilarity 1 [chunkA, chunkPlain, chunkB]
     = [(chunkB, Num 2), (chunkA, Num 1), (chunkPlain, Num (- 1))]"
  by (simp add: retrieval_defs scalarSimilarity_def chunkA_def chunkB_def chunkPlain_def)

lemma unembedded_ranked_last:
  assumes nan: "\<forall>c \<in> set idx. \<not> isNaN (score_of cs q c)"
    and i: "i < length idx" and j: "j < length idx"
    and none: "embedding (fst (scoredSorted cs q idx ! i)) = None"
    and nonneg: "num_le (Num 0) (snd (scoredSorted cs q idx ! j))"
  shows "snd (scoredSorted cs q idx ! i) = Num (- 1) \<and> j < i"
proof -
  let ?S = "scoredSorted cs q idx"
  from scoredSorted_sorted[OF nan] have s: "sorted_wrt desc ?S" .
  from i have "?S ! i \<in> set ?S" by (simp add: length_scoredSorted)
  then obtain c where c: "?S ! i = (c, score_of cs q c)" unfolding set_scoredSorted by blast
  with none have m1: "snd (?S ! i) = Num (- 1)" by (simp add: score_of_def)
  have "j < i"
  proof (rule ccontr)
    assume "\<not> j < i"
    then consider "i = j" | "i < j" by linarith
    then have "num_le (snd (?S ! j)) (snd (?S ! i))"
    proof cases
      case 1
      with m1 show ?thesis by simp
    next
      case 2
      from j have "j < length ?S" by (simp add: length_scoredSorted)
      with s 2 have "desc (?S ! i) (?S ! j)" by (rule sorted_wrt_nth_less)
      then show ?thesis by (simp only: desc_def)
    qed
    with nonneg have "num_le (Num 0) (snd (?S ! i))" by (rule num_le_trans)
    with m1 show False by simp
  qed
  with m1 show ?thesis by (rule conjI)
qed

subsection \<open>Retrieval degrades to the empty context\<close>

text \<open>
  Claim C5. \<^verbatim>\<open>retrieveContext\<close> returns the empty string whenever the index is empty, no
  embedder is configured, the chunks of the index carry no vectors, or \<^verbatim>\<open>embedQuery\<close>
  throws; \<^verbatim>\<open>runStream\<close> then runs its loop on the system prompt with the empty context.
  The function cannot throw: its only call that can is \<^verbatim>\<open>embedQuery\<close>, inside the
  \<^verbatim>\<open>try\<close>, and the model returns a string on every input.
\<close>

theorem retrieveContext_degrades:
  assumes "index agent = [] \<or> embeddings agent = None
           \<or> list_all (\<lambda>c. embedding c = None) (index agent)
           \<or> (\<exists>embedQuery e. embeddings agent = Some embedQuery \<and> embedQuery query = Inl e)"
  shows "retrieveContext cs agent query k = []
         \<and> runStream cs agent invoke l fs query history =
             whileLoop tools invoke 0
               \<lparr>currentMessages = [SystemMessage (systemPrompt [])] @ history @ [HumanMessage query],
                events = [], files = fs, llmState = l, invocations = 0, uncaught = None\<rparr>"
proof -
  from assms have "retrieveContext cs agent query 5 = []" "retrieveContext cs agent query k = []"
    by (auto simp: retrieveContext_def split: list.splits option.splits sum.splits)
  then show ?thesis by (simp add: runStream_def)
qed

theorem retrieveContext_degrades_witness:
  "embeddings failingEmbedder = Some embedFails
   \<and> embedFails ''where is main?'' = Inl (Thrown (JStr ''embedding service unavailable''))
   \<and> retrieveContext scalarSimilarity failingEmbedder ''where is main?'' 5 = []"
proof -
  have h: "embeddings failingEmbedder = Some embedFails
           \<and> embedFails ''where is main?'' = Inl (Thrown (JStr ''embedding service unavailable''))"
    by (simp add: failingEmbedder_def embedFails_def errorObject_def)
  then have "index failingEmbedder = [] \<or> embeddings failingEmbedder = None
           \<or> list_all (\<lambda>c. embedding c = None) (index failingEmbedder)
           \<or> (\<exists>embedQuery e. embeddings failingEmbedder = Some embedQuery \<and> embedQuery ''where is main?'' = Inl e)"
    by blast
  from retrieveContext_degrades[OF this, THEN conjunct1, of scalarSimilarity 5] h
  show ?thesis by simp
qed

subsection \<open>The k best chunks\<close>

text \<open>
  Claim C6, as amended. Over a non-empty index whose chunks all carry vectors, with an
  embedder that returns the query's embedding, a result count \<open>k \<ge> 0\<close> and provided
  that no similarity of a chunk to the query is NaN, \<^verbatim>\<open>retrieveContext\<close> returns the
  first \<open>min k n\<close> entries of the index sorted by descending similarity, each formatted as
  its location and content and joined by the delimiter: the entries returned are in
  descending order, every entry left out has a similarity no greater than every entry
  returned, and the sorted entries are the chunks of the index with their similarity to the
  query. With \<open>k = 5\<close> and two chunks the result holds two.
\<close>

theorem retrieveContext_top_k:
  assumes "index agent = first # rest"
    and "\<forall>c \<in> set (index agent). embedding c \<noteq> None"
    and "embeddings agent = Some embedQuery" and "embedQuery query = Inr q"
    and "\<forall>c \<in> set (index agent). \<not> isNaN (cs q (the (embedding c)))"
    and "0 \<le> k"
  shows "retrieveContext cs agent query k =
           join delimiter (map formatChunk (take (nat k) (scoredSorted cs q (index agent))))
         \<and> length (take (nat k) (scoredSorted cs q (index agent))) = min (nat k) (length (index agent))
         \<and> sorted_wrt desc (take (nat k) (scoredSorted cs q (index agent)))
         \<and> (\<forall>a \<in> set (take (nat k) (scoredSorted cs q (index agent))).
              \<forall>b \<in> set (drop (nat k) (scoredSorted cs q (index agent))). num_le (snd b) (snd a))
         \<and> mset (scoredSorted cs q (index agent))
             = mset (map (\<lambda>c. (c, cs q (the (embedding c)))) (index agent))"
proof -
  let ?S = "scoredSorted cs q (index agent)"
  from assms(1,2) obtain v where v: "embedding first = Some v" by auto
  have sc: "score_of cs q c = cs q (the (embedding c))" if "c \<in> set (index agent)" for c
    using that assms(2) by (auto simp: score_of_def)
  with assms(5) have nan: "\<forall>c \<in> set (index agent). \<not> isNaN (score_of cs q c)" by simp
  from retrieveContext_ranked[OF assms(1) v assms(3,4)] assms(6)
  have 1: "retrieveContext cs agent query k = join delimiter (map formatChunk (take (nat k) ?S))"
    by (simp add: slice0_def)
  have 2: "length (take (nat k) ?S) = min (nat k) (length (index agent))"
    by (simp add: length_scoredSorted min.commute)
  from scoredSorted_sorted[OF nan] have s: "sorted_wrt desc ?S" .
  then have "sorted_wrt desc (take (nat k) ?S @ drop (nat k) ?S)" by simp
  then have 3: "sorted_wrt desc (take (nat k) ?S)" unfolding sorted_wrt_append by (rule conjunct1)
  have 4: "\<forall>a \<in> set (take (nat k) ?S). \<forall>b \<in> set (drop (nat k) ?S). num_le (snd b) (snd a)"
  proof (intro ballI)
    fix a b assume "a \<in> set (take (nat k) ?S)" "b \<in> set (drop (nat k) ?S)"
    with s have "desc a b" by (rule sorted_wrt_take_drop)
    then show "num_le (snd b) (snd a)" by (simp only: desc_def)
  qed
  have "map (\<lambda>c. (c, score_of cs q c)) (index agent) = map (\<lambda>c. (c, cs q (the (embedding c)))) (index agent)"
    by (rule map_cong[OF refl]) (simp add: sc)
  with mset_scoredSorted[of cs q "index agent"]
  have 5: "mset ?S = mset (map (\<lambda>c. (c, cs q (the (embedding c)))) (index agent))"
    by (simp only:)
  from 1 2 3 4 5 show ?thesis by (intro conjI)
qed

theorem retrieveContext_top_k_witness:
  "retrieveContext scalarSimilarity twoChunks ''where is b?'' 5 =
     ''File: src/b.ts\<newline>Content:\<newline>export const b = 2;\<newline>\<newline>---\<newline>File: src/a.ts\<newline>Content:\<newline>export const a = 1;\<newline>''
   \<and> length (take (nat 5) (scoredSorted scalarSimilarity 1 (index twoChunks))) = 2"
proof -
  have idx: "index twoChunks = chunkA # [chunkB]" by (simp add: twoChunks_def)
  have vec: "\<forall>c \<in> set (index twoChunks). embedding c \<noteq> None"
    by (simp add: twoChunks_def chunkA_def chunkB_def)
  have emb: "embeddings twoChunks = Some embedOne" by (simp add: twoChunks_def)
  have q: "embedOne ''where is b?'' = Inr 1" by (simp add: embedOne_def)
  have nan: "\<forall>c \<in> set (index twoChunks). \<not> isNaN (scalarSimilarity 1 (the (embedding c)))"
    by (simp add: twoChunks_def chunkA_def chunkB_def scalarSimilarity_def)
  have k: "(0::int) \<le> 5" by simp
  from retrieveContext_top_k[where cs = scalarSimilarity and embedQuery = embedOne
      and query = "''where is b?''" and q = 1, OF idx vec emb q nan k]
  show ?thesis
    unfolding idx sorted_two
    by (simp add: formatChunk_def delimiter_def chunkA_def chunkB_def)
qed

lemma scores_short:
  "score_of cosineSimilarity [Num 1, Num 0] chunkOrthogonal = Num 0"
  "score_of cosineSimilarity [Num 1, Num 0] chunkShort = NaN"
  "score_of cosineSimilarity [Num 1, Num 0] chunkEqual = Num 1"
  "score_of cosineSimilarity [Num 1, Num 0] chunkBare = Num (- 1)"
  by (simp_all add: score_of_def chunkOrthogonal_def chunkShort_def chunkEqual_def chunkBare_def
      float_defs numeral_2_eq_2)

lemma sorted_short:
  "scoredSorted cosineSimilarity [Num 1, Num 0] [chunkOrthogonal, chunkShort, chunkEqual]
     = [(chunkOrthogonal, Num 0), (chunkShort, NaN), (chunkEqual, Num 1)]"
  by (simp add: scoredSorted_def scores_short sort_defs byScoreDesc_def)

lemma sorted_short_mixed:
  "scoredSorted cosineSimilarity [Num 1, Num 0] [chunkOrthogonal, chunkBare, chunkShort, chunkEqual]
     = [(chunkOrthogonal, Num 0), (chunkBare, Num (- 1)), (chunkShort, NaN), (chunkEqual, Num 1)]"
  by (simp add: scoredSorted_def scores_short sort_defs byScoreDesc_def)

text \<open>
  Claim C6 as stated fails when a similarity is NaN, which \<open>cosineSimilarity\<close> returns
  for a chunk whose vector is shorter than the query's. The comparator then answers NaN for
  every pair with that chunk, \<^verbatim>\<open>sort\<close> takes the index \<^verbatim>\<open>[a, n, b]\<close> (similarities 0,
  NaN and 1) for a run in order and leaves it as it is, and with \<open>k = 1\<close> the context
  is the chunk of similarity 0, not the one of similarity 1.
\<close>

theorem retrieveContext_nan_counterexample:
  "cosineSimilarity [Num 1, Num 0] [Num 0, Num 1] = Num 0
   \<and> cosineSimilarity [Num 1, Num 0] [Num 1] = NaN
   \<and> cosineSimilarity [Num 1, Num 0] [Num 1, Num 0] = Num 1
   \<and> scoredSorted cosineSimilarity [Num 1, Num 0] (index shortVectorIndex)
       = [(chunkOrthogonal, Num 0), (chunkShort, NaN), (chunkEqual, Num 1)]
   \<and> retrieveContext cosineSimilarity shortVectorIndex ''where is b?'' 1
       = ''File: src/a.ts\<newline>Content:\<newline>export const a = 1;\<newline>''"
proof -
  have 1: "cosineSimilarity [Num 1, Num 0] [Num 0, Num 1] = Num 0"
    "cosineSimilarity [Num 1, Num 0] [Num 1] = NaN"
    "cosineSimilarity [Num 1, Num 0] [Num 1, Num 0] = Num 1"
    by (simp_all add: float_defs numeral_2_eq_2)
  have idx: "index shortVectorIndex = [chunkOrthogonal, chunkShort, chunkEqual]"
    by (simp add: shortVectorIndex_def)
  have "retrieveContext cosineSimilarity shortVectorIndex ''where is b?'' 1
       = join delimiter (map formatChunk (slice0
           (scoredSorted cosineSimilarity [Num 1, Num 0] (index shortVectorIndex)) 1))"
    by (simp add: retrieveContext_def shortVectorIndex_def embedUnit_def chunkOrthogonal_def)
  then have 2: "retrieveContext cosineSimilarity shortVectorIndex ''where is b?'' 1
       = ''File: src/a.ts\<newline>Content:\<newline>export const a = 1;\<newline>''"
    unfolding idx sorted_short
    by (simp add: slice0_def formatChunk_def delimiter_def chunkOrthogonal_def)
  from 1 2 show ?thesis unfolding idx sorted_short by simp
qed

subsection \<open>The first chunk decides; chunks without a vector come last\<close>

text \<open>
  Claim C9, as amended. Only the first chunk is inspected for a vector: when it has none
  the context is empty, whatever the later chunks carry. When it has one and the query is
  embedded, the context is built from the whole index after sorting, in which every chunk
  without a vector has the score -1; provided that no score is NaN, every such chunk stands
  after every chunk whose score is not negative.
\<close>

theorem retrieveContext_first_chunk_decides:
  assumes "index agent = first # rest"
  shows "(embedding first = None \<longrightarrow> retrieveContext cs agent query k = [])
         \<and> (embedding first \<noteq> None \<and> embeddings agent = Some embedQuery \<and> embedQuery query = Inr q
               \<and> (\<forall>c \<in> set (index agent). \<not> isNaN (score_of cs q c))
             \<longrightarrow> retrieveContext cs agent query k =
                     join delimiter (map formatChunk (slice0 (scoredSorted cs q (index agent)) k))
                 \<and> (\<forall>i < length (index agent). \<forall>j < length (index agent).
                        embedding (fst (scoredSorted cs q (index agent) ! i)) = None
                        \<and> num_le (Num 0) (snd (scoredSorted cs q (index agent) ! j))
                        \<longrightarrow> snd (scoredSorted cs q (index agent) ! i) = Num (- 1) \<and> j < i))"
proof (rule conjI)
  show "embedding first = None \<longrightarrow> retrieveContext cs agent query k = []"
    using assms by (simp add: retrieveContext_def split: option.splits)
next
  let ?S = "scoredSorted cs q (index agent)"
  show "embedding first \<noteq> None \<and> embeddings agent = Some embedQuery \<and> embedQuery query = Inr q
               \<and> (\<forall>c \<in> set (index agent). \<not> isNaN (score_of cs q c))
        \<longrightarrow> retrieveContext cs agent query k = join delimiter (map formatChunk (slice0 ?S k))
            \<and> (\<forall>i < length (index agent). \<forall>j < length (index agent).
                  embedding (fst (?S ! i)) = None \<and> num_le (Num 0) (snd (?S ! j))
                  \<longrightarrow> snd (?S ! i) = Num (- 1) \<and> j < i)"
  proof (rule impI)
    assume h: "embedding first \<noteq> None \<and> embeddings agent = Some embedQuery \<and> embedQuery query = Inr q
               \<and> (\<forall>c \<in> set (index agent). \<not> isNaN (score_of cs q c))"
    then obtain v where v: "embedding first = Some v" by auto
    from h have emb: "embeddings agent = Some embedQuery" and q: "embedQuery query = Inr q"
      and nan: "\<forall>c \<in> set (index agent). \<not> isNaN (score_of cs q c)" by blast+
    have 1: "retrieveContext cs agent query k = join delimiter (map formatChunk (slice0 ?S k))"
      by (rule retrieveContext_ranked[OF assms v emb q])
    have 2: "\<forall>i < length (index agent). \<forall>j < length (index agent).
                  embedding (fst (?S ! i)) = None \<and> num_le (Num 0) (snd (?S ! j))
                  \<longrightarrow> snd (?S ! i) = Num (- 1) \<and> j < i"
    proof (intro allI impI)
      fix i j
      assume i: "i < length (index agent)" and j: "j < length (index agent)"
        and ij: "embedding (fst (?S ! i)) = None \<and> num_le (Num 0) (snd (?S ! j))"
      from ij have a: "embedding (fst (?S ! i)) = None" by (rule conjunct1)
      from ij have b: "num_le (Num 0) (snd (?S ! j))" by (rule conjunct2)
      show "snd (?S ! i) = Num (- 1) \<and> j < i"
        by (rule unembedded_ranked_last[OF nan i j a b])
    qed
    from 1 2 show "retrieveContext cs agent query k = join delimiter (map formatChunk (slice0 ?S k))
            \<and> (\<forall>i < length (index agent). \<forall>j < length (index agent).
                  embedding (fst (?S ! i)) = None \<and> num_le (Num 0) (snd (?S ! j))
                  \<longrightarrow> snd (?S ! i) = Num (- 1) \<and> j < i)"
      by (rule conjI)
  qed
qed

theorem retrieveContext_first_chunk_decides_witness:
  "retrieveContext scalarSimilarity plainFirst ''where is b?'' 5 = []
   \<and> retrieveContext scalarSimilarity mixedIndex ''where is b?'' 5 =
     ''File: src/b.ts\<newline>Content:\<newline>export const b = 2;\<newline>\<newline>---\<newline>File: src/a.ts\<newline>Content:\<newline>export const a = 1;\<newline>\<newline>---\<newline>File: README.md\<newline>Content:\<newline># readme\<newline>''
   \<and> snd (scoredSorted scalarSimilarity 1 (index mixedIndex) ! 2) = Num (- 1)"
proof -
  have "index plainFirst = chunkPlain # [chunkA, chunkB]" by (simp add: plainFirst_def)
  from retrieveContext_first_chunk_decides[OF this, of scalarSimilarity "''where is b?''" 5, THEN conjunct1]
  have 1: "retrieveContext scalarSimilarity plainFirst ''where is b?'' 5 = []"
    by (simp add: chunkPlain_def)
  have idx: "index mixedIndex = chunkA # [chunkPlain, chunkB]" by (simp add: mixedIndex_def)
  have h: "embedding chunkA \<noteq> None \<and> embeddings mixedIndex = Some embedOne
           \<and> embedOne ''where is b?'' = Inr 1
           \<and> (\<forall>c \<in> set (index mixedIndex). \<not> isNaN (score_of scalarSimilarity 1 c))"
    by (simp add: mixedIndex_def chunkA_def chunkB_def chunkPlain_def score_of_def
        scalarSimilarity_def embedOne_def)
  note main = retrieveContext_first_chunk_decides[OF idx, of scalarSimilarity "''where is b?''" 5 embedOne 1,
      THEN conjunct2, rule_format, OF h]
  from main[THEN conjunct1]
  have 2: "retrieveContext scalarSimilarity mixedIndex ''where is b?'' 5
            = join delimiter (map formatChunk (slice0 (scoredSorted scalarSimilarity 1 (index mixedIndex)) 5))" .
  have "embedding (fst (scoredSorted scalarSimilarity 1 (index mixedIndex) ! 2)) = None
        \<and> num_le (Num 0) (snd (scoredSorted scalarSimilarity 1 (index mixedIndex) ! 1))"
    unfolding idx sorted_mixed by (simp add: chunkPlain_def)
  from main[THEN conjunct2, rule_format, of 2 1, OF _ _ this]
  have 3: "snd (scoredSorted scalarSimilarity 1 (index mixedIndex) ! 2) = Num (- 1)"
    by (simp add: mixedIndex_def)
  from 1 2 3 show ?thesis
    unfolding idx sorted_mixed
    by (simp add: slice0_def formatChunk_def delimiter_def chunkA_def chunkB_def chunkPlain_def)
qed

text \<open>
  Claim C9 as stated fails when a score is NaN: in the index \<^verbatim>\<open>[a, README, n, b]\<close>, with
  scores 0, -1 (no vector), NaN (a vector shorter than the query's) and 1, \<^verbatim>\<open>sort\<close>
  finds the whole array to be a run in order, so the chunk without a vector keeps its
  place before the chunk of similarity 1, and with \<open>k = 2\<close> it is in the context while
  that chunk is not.
\<close>

theorem unembedded_before_match_counterexample:
  "embedding chunkBare = None
   \<and> scoredSorted cosineSimilarity [Num 1, Num 0] (index shortVectorMixed)
       = [(chunkOrthogonal, Num 0), (chunkBare, Num (- 1)), (chunkShort, NaN), (chunkEqual, Num 1)]
   \<and> retrieveContext cosineSimilarity shortVectorMixed ''where is b?'' 2
       = ''File: src/a.ts\<newline>Content:\<newline>export const a = 1;\<newline>\<newline>---\<newline>File: README.md\<newline>Content:\<newline># readme\<newline>''"
proof -
  have idx: "index shortVectorMixed = [chunkOrthogonal, chunkBare, chunkShort, chunkEqual]"
    by (simp add: shortVectorMixed_def)
  have "retrieveContext cosineSimilarity shortVectorMixed ''where is b?'' 2
       = join delimiter (map formatChunk (slice0
           (scoredSorted cosineSimilarity [Num 1, Num 0] (index shortVectorMixed)) 2))"
    by (simp add: retrieveContext_def shortVectorMixed_def embedUnit_def chunkOrthogonal_def)
  then have "retrieveContext cosineSimilarity shortVectorMixed ''where is b?'' 2
       = ''File: src/a.ts\<newline>Content:\<newline>export const a = 1;\<newline>\<newline>---\<newline>File: README.md\<newline>Content:\<newline># readme\<newline>''"
    unfolding idx sorted_short_mixed
    by (simp add: slice0_def formatChunk_def delimiter_def chunkOrthogonal_def chunkBare_def)
  then show ?thesis unfolding idx sorted_short_mixed by (simp add: chunkBare_def)
qed
subsection \<open>The file system: writing, then reading\<close>



lemma start_entries [simp]: "start (fs\<lparr>entries := es\<rparr>) p = start fs p"
  by (simp add: start_def)



lemma writeFileSync_fields:
  assumes "writeFileSync fs v data = (r, fs')"
  shows "refuse fs' = refuse fs \<and> encode fs' = encode fs \<and> decode fs' = decode fs \<and> cwd fs' = cwd fs"
  using assms
  by (auto simp: writeFileSync_def openForWriting_def
      split: jsval.splits if_splits sum.splits option.splits node.splits prod.splits)










subsection \<open>Paths made of plain names\<close>








lemma plainName_no_slash: "plainName n \<Longrightarrow> CHR ''/'' \<notin> set n"
  by (simp add: plainName_def)
















subsection \<open>\<^verbatim>\<open>write_file\<close> and \<^verbatim>\<open>read_file\<close>\<close>

lemma write_file_func_total:
  "\<not> nullish wargs \<Longrightarrow> \<exists>res fs'. write_file_func fs wargs = Inr (res, fs')"
  by (auto simp: write_file_func_def Let_def split: sum.splits prod.splits option.splits)







subsection \<open>Tool calls\<close>

lemma read_file_func_total:
  "\<not> nullish args \<Longrightarrow> \<exists>res. read_file_func fs args = Inr (res, fs)"
  by (auto simp: read_file_func_def Let_def split: sum.splits)

lemma list_files_func_total:
  "\<not> nullish args \<Longrightarrow> \<exists>res. list_files_func fs args = Inr (res, fs)"
  by (auto simp: list_files_func_def Let_def split: sum.splits)

lemma find_tools:
  "find (\<lambda>t. name t = n) tools = Some tool \<Longrightarrow> tool \<in> {read_file, write_file, list_files}"
  by (auto simp: tools_def split: if_splits)

lemma registered_total:
  assumes "find (\<lambda>t. name t = n) tools = Some tool" and "\<not> nullish args"
  shows "\<exists>res fs'. func tool fs args = Inr (res, fs')"
proof -
  from find_tools[OF assms(1)] consider "tool = read_file" | "tool = write_file" | "tool = list_files"
    by auto
  then show ?thesis
  proof cases
    case 1
    with read_file_func_total[OF assms(2), of fs] show ?thesis by (auto simp: read_file_def)
  next
    case 2
    with write_file_func_total[OF assms(2), of fs] show ?thesis by (auto simp: write_file_def)
  next
    case 3
    with list_files_func_total[OF assms(2), of fs] show ?thesis by (auto simp: list_files_def)
  qed
qed

lemma find_name_schema:
  "find (\<lambda>t. name t = n) (map (\<lambda>t. t\<lparr>schema := s t\<rparr>) ts)
     = map_option (\<lambda>t. t\<lparr>schema := s t\<rparr>) (find (\<lambda>t. name t = n) ts)"
  by (induction ts) auto

lemma toolCallStep_schema:
  "toolCallStep (map (\<lambda>t. t\<lparr>schema := s t\<rparr>) ts) st toolCall = toolCallStep ts st toolCall"
  by (cases "find (\<lambda>t. name t = tc_name toolCall) ts")
     (auto simp: toolCallStep_def find_name_schema split: sum.splits)






text \<open>
  Claim C4, as amended. For a tool call addressed to a registered tool, with arguments
  that are not null or undefined, the handler is invoked on the arguments as the model
  sent them, and the string it returns (its own failure strings included) is yielded as the
  \<^verbatim>\<open>tool_result\<close> event and appended as the tool message. The schemas take no part:
  replacing every tool's schema by any other leaves the step unchanged.
\<close>

theorem registered_tool_call_unvalidated:
  assumes "find (\<lambda>t. name t = tc_name toolCall) tools = Some tool"
    and "\<not> nullish (tc_args toolCall)"
  shows "\<exists>result fs'. func tool (files st) (tc_args toolCall) = Inr (result, fs')
           \<and> toolCallStep tools st toolCall
               = Inr (st\<lparr>files := fs',
                         events := events st @ [Tool_result (name tool) result],
                         currentMessages := currentMessages st
                           @ [ToolMessage (idOrUnknown (tc_id toolCall)) result]\<rparr>)
           \<and> (\<forall>s. toolCallStep (map (\<lambda>t. t\<lparr>schema := s t\<rparr>) tools) st toolCall
                    = toolCallStep tools st toolCall)"
proof -
  from registered_total[OF assms, of "files st"] obtain result fs' where
    f: "func tool (files st) (tc_args toolCall) = Inr (result, fs')" by blast
  with assms(1) have "toolCallStep tools st toolCall
               = Inr (st\<lparr>files := fs',
                         events := events st @ [Tool_result (name tool) result],
                         currentMessages := currentMessages st
                           @ [ToolMessage (idOrUnknown (tc_id toolCall)) result]\<rparr>)"
    by (simp add: toolCallStep_def push_def yield_def)
  with f show ?thesis by (auto simp: toolCallStep_schema)
qed

lemma find_read_file: "find (\<lambda>t. name t = ''read_file'') tools = Some read_file"
  by (simp add: tools_def read_file_def)

lemma find_write_file: "find (\<lambda>t. name t = ''write_file'') tools = Some write_file"
  by (simp add: tools_def read_file_def write_file_def)

theorem registered_tool_call_unvalidated_witness:
  "\<not> schema read_file (JObj [])
   \<and> toolCallStep tools idle (ToolCall ''read_file'' (JObj []) (Some ''call_1''))
     = Inr (idle\<lparr>events := [Tool_result ''read_file'' ''File not found: undefined''],
               currentMessages := [ToolMessage ''call_1'' ''File not found: undefined'']\<rparr>)"
proof -
  let ?c = "ToolCall ''read_file'' (JObj []) (Some ''call_1'')"
  have f: "find (\<lambda>t. name t = tc_name ?c) tools = Some read_file" by (simp add: find_read_file)
  have n: "\<not> nullish (tc_args ?c)" by (simp add: nullish_def)
  from registered_tool_call_unvalidated[OF f n, of idle] obtain result fs' where
    r: "func read_file (files idle) (tc_args ?c) = Inr (result, fs')"
    and t: "toolCallStep tools idle ?c
               = Inr (idle\<lparr>files := fs',
                         events := events idle @ [Tool_result (name read_file) result],
                         currentMessages := currentMessages idle
                           @ [ToolMessage (idOrUnknown (tc_id ?c)) result]\<rparr>)"
    by blast
  from r have "result = ''File not found: undefined''" "fs' = rootOnly"
    by (simp_all add: tool_defs fs_defs idle_def rootOnly_def)
  with t have "toolCallStep tools idle ?c
     = Inr (idle\<lparr>events := [Tool_result ''read_file'' ''File not found: undefined''],
               currentMessages := [ToolMessage ''call_1'' ''File not found: undefined'']\<rparr>)"
    by (simp add: idle_def read_file_def idOrUnknown_def)
  moreover have "\<not> schema read_file (JObj [])"
    by (simp add: read_file_def zObject_def zString_def getProp_def)
  ultimately show ?thesis by simp
qed

text \<open>
  Claim C4 as stated fails: the arguments \<^verbatim>\<open>{path: "notes/todo.txt"}\<close> do not satisfy
  the schema of \<^verbatim>\<open>write_file\<close> (no content), yet the handler runs, creates the directory
  \<^verbatim>\<open>notes\<close>, and the string returned is the one of the handler's own \<^verbatim>\<open>catch\<close>, for
  the exception of \<^verbatim>\<open>writeFileSync\<close>.
\<close>

theorem unvalidated_write_counterexample:
  "\<not> schema write_file (JObj [(''path'', JStr ''notes/todo.txt'')])
   \<and> toolCallStep tools idle (ToolCall ''write_file'' (JObj [(''path'', JStr ''notes/todo.txt'')]) (Some ''call_1''))
     = Inr (idle\<lparr>files := rootOnly\<lparr>entries := [([], Dir), ([''notes''], Dir)]\<rparr>,
               events := [Tool_result ''write_file''
                            (''Error writing file: '' @ message (dataTypeError JUndefined))],
               currentMessages := [ToolMessage ''call_1''
                            (''Error writing file: '' @ message (dataTypeError JUndefined))]\<rparr>)"
proof -
  have "\<not> schema write_file (JObj [(''path'', JStr ''notes/todo.txt'')])"
    by (simp add: write_file_def zObject_def zString_def getProp_def)
  moreover have "write_file_func rootOnly (JObj [(''path'', JStr ''notes/todo.txt'')])
    = Inr (''Error writing file: '' @ message (dataTypeError JUndefined),
           rootOnly\<lparr>entries := [([], Dir), ([''notes''], Dir)]\<rparr>)"
    by (simp add: tool_defs fs_defs rootOnly_def)
  ultimately show ?thesis
    by (simp add: toolCallStep_def find_write_file write_file_def idle_def idOrUnknown_def
        push_def yield_def)
qed

lemma find_Some_name: "find (\<lambda>t. name t = n) ts = Some tool \<Longrightarrow> n \<in> set (map name ts)"
  by (induction ts) (auto split: if_splits)

lemma toolCallStep_message:
  assumes "tc_name c \<notin> set (map name tools) \<or> \<not> nullish (tc_args c)"
  shows "\<exists>st' r. toolCallStep tools st c = Inr st'
           \<and> currentMessages st' = currentMessages st @ [ToolMessage (idOrUnknown (tc_id c)) r]"
proof (cases "find (\<lambda>t. name t = tc_name c) tools")
  case None
  then show ?thesis by (simp add: toolCallStep_def push_def)
next
  case (Some tool)
  from find_Some_name[OF Some] assms have n: "\<not> nullish (tc_args c)" by blast
  from registered_total[OF Some n, of "files st"] obtain r fs' where
    "func tool (files st) (tc_args c) = Inr (r, fs')" by blast
  with Some show ?thesis by (simp add: toolCallStep_def push_def yield_def)
qed

lemma toolCallsLoop_messages:
  assumes "\<forall>c \<in> set calls. tc_name c \<notin> set (map name tools) \<or> \<not> nullish (tc_args c)"
  shows "\<exists>st' results. toolCallsLoop tools st calls = Inr st' \<and> length results = length calls
           \<and> currentMessages st'
               = currentMessages st @ map (\<lambda>(c, r). ToolMessage (idOrUnknown (tc_id c)) r) (zip calls results)"
  using assms
proof (induction calls arbitrary: st)
  case Nil
  then show ?case by simp
next
  case (Cons c calls)
  from Cons.prems have "tc_name c \<notin> set (map name tools) \<or> \<not> nullish (tc_args c)" by simp
  from toolCallStep_message[OF this, of st] obtain s1 r where
    s1: "toolCallStep tools st c = Inr s1"
    and m1: "currentMessages s1 = currentMessages st @ [ToolMessage (idOrUnknown (tc_id c)) r]"
    by blast
  from Cons.prems have "\<forall>c \<in> set calls. tc_name c \<notin> set (map name tools) \<or> \<not> nullish (tc_args c)"
    by simp
  from Cons.IH[OF this, of s1] obtain st' results where
    l: "toolCallsLoop tools s1 calls = Inr st'" and n: "length results = length calls"
    and m: "currentMessages st'
         = currentMessages s1 @ map (\<lambda>(c, r). ToolMessage (idOrUnknown (tc_id c)) r) (zip calls results)"
    by blast
  from s1 l have "toolCallsLoop tools st (c # calls) = Inr st'" by simp
  moreover from n have "length (r # results) = length (c # calls)" by simp
  moreover from m m1 have "currentMessages st'
         = currentMessages st @ map (\<lambda>(c, r). ToolMessage (idOrUnknown (tc_id c)) r) (zip (c # calls) (r # results))"
    by simp
  ultimately show ?case by blast
qed

text \<open>
  Claim C10, as amended. When no call of a batch makes its handler throw (each call names
  an unregistered tool, or has arguments that are not null or undefined), the \<^verbatim>\<open>for\<close>
  loop appends exactly one tool message per call, in the order of the calls. Its id is
  the call's id when that is a non-empty string, and \<^verbatim>\<open>unknown\<close> when the id is absent
  or the empty string; so two calls without id both get the id \<^verbatim>\<open>unknown\<close>.
\<close>

theorem one_tool_result_per_call:
  assumes "\<forall>c \<in> set calls. tc_name c \<notin> set (map name tools) \<or> \<not> nullish (tc_args c)"
  shows "(\<exists>st' results. toolCallsLoop tools st calls = Inr st' \<and> length results = length calls
            \<and> currentMessages st'
                = currentMessages st
                  @ map (\<lambda>(c, r). ToolMessage (idOrUnknown (tc_id c)) r) (zip calls results))
         \<and> (\<forall>i. i \<noteq> [] \<longrightarrow> idOrUnknown (Some i) = i)
         \<and> idOrUnknown None = ''unknown''
         \<and> idOrUnknown (Some []) = ''unknown''"
  using toolCallsLoop_messages[OF assms, of st] by (simp add: idOrUnknown_def)

theorem one_tool_result_per_call_witness:
  "toolCallsLoop tools idle [ToolCall ''read_file'' (JObj [(''path'', JStr ''x.py'')]) None,
                             ToolCall ''search'' (JObj []) None]
     = Inr (idle\<lparr>events := [Tool_result ''read_file'' ''File not found: x.py''],
               currentMessages := [ToolMessage ''unknown'' ''File not found: x.py'',
                                   ToolMessage ''unknown'' ''Error: Tool not found'']\<rparr>)"
proof -
  let ?calls = "[ToolCall ''read_file'' (JObj [(''path'', JStr ''x.py'')]) None,
                 ToolCall ''search'' (JObj []) None]"
  have h: "\<forall>c \<in> set ?calls. tc_name c \<notin> set (map name tools) \<or> \<not> nullish (tc_args c)"
    by (simp add: nullish_def tools_def read_file_def write_file_def list_files_def)
  from one_tool_result_per_call[OF h, of idle, THEN conjunct1]
  obtain st' and results :: "string list" where
    l: "toolCallsLoop tools idle ?calls = Inr st'" and "length results = length ?calls"
    by (elim exE conjE)
  have "toolCallsLoop tools idle ?calls
     = Inr (idle\<lparr>events := [Tool_result ''read_file'' ''File not found: x.py''],
               currentMessages := [ToolMessage ''unknown'' ''File not found: x.py'',
                                   ToolMessage ''unknown'' ''Error: Tool not found'']\<rparr>)"
    by (simp add: toolCallStep_def tools_def yield_def push_def idOrUnknown_def
        tool_defs fs_defs idle_def rootOnly_def)
  with l show ?thesis by simp
qed

text \<open>
  Claim C10 as stated fails for a call whose id is the empty string: the model supplied it,
  and the tool message carries \<^verbatim>\<open>unknown\<close>.
\<close>

theorem empty_id_counterexample:
  "tc_id (ToolCall ''search'' (JObj []) (Some [])) = Some []
   \<and> toolCallStep tools idle (ToolCall ''search'' (JObj []) (Some []))
     = Inr (idle\<lparr>currentMessages := [ToolMessage ''unknown'' ''Error: Tool not found'']\<rparr>)"
  by (simp add: toolCallStep_def find_tools_search idOrUnknown_def push_def idle_def)

end
